theory Spec2Isabelle
  imports
    Main
    "HOL-Library.AList"
    "HOL-Library.Char_ord"
    "HOL-Library.List_Lexorder"
    "HOL-Library.Multiset"
begin

section \<open>Python values and exceptions\<close>

text \<open>
  A Python \<open>str\<close> is modelled as a \<open>string\<close> holding its UTF-8 bytes.  The four
  characters the text codec is about are named here.
\<close>

definition NL :: char where "NL = CHR 0x0A"
definition CR :: char where "CR = CHR 0x0D"
definition TAB :: char where "TAB = CHR 0x09"
definition BS :: char where "BS = CHR 0x5C"

text \<open>The exceptions raised by the functions modelled below.\<close>

datatype error =
    KeyError
  | TypeError
  | AttributeError
  | ValueError
  | IndexError
  | SortFailed int

text \<open>\<open>str.startswith\<close>.\<close>

definition startswith :: "string \<Rightarrow> string \<Rightarrow> bool" where
  "startswith s p = (take (length p) s = p)"

section \<open>Text codec: \<open>_make_sub\<close>, \<open>pgencode\<close>, \<open>pgdecode\<close>\<close>

text \<open>
  A substitution dictionary keeps its insertion order, which is the order of the
  alternatives of the compiled regular expression.
\<close>

type_synonym subst_dict = "(string \<times> string) list"

text \<open>
  The alternation \<open>"|".join(re.escape(key) for key in d)\<close> tried at the start of \<open>s\<close>:
  the first key, in dictionary order, that is a prefix of \<open>s\<close>, with \<open>d[key]\<close>.
\<close>

fun first_match :: "subst_dict \<Rightarrow> string \<Rightarrow> (string \<times> string) option" where
  "first_match [] s = None"
| "first_match ((k, v) # d) s = (if startswith s k then Some (k, v) else first_match d s)"

text \<open>
  \<open>rx.sub(f, s)\<close>: scanning from the left, a match at the current position is replaced
  by \<open>d[a.group(0)]\<close> and the scan resumes after the matched text (the match holds the
  current character \<open>c\<close> and \<open>length k - 1\<close> more); without a match the character is
  copied.  The keys of both dictionaries of the module are non-empty.
\<close>

fun rx_sub :: "subst_dict \<Rightarrow> string \<Rightarrow> string" where
  "rx_sub d [] = []"
| "rx_sub d (c # cs) =
     (case first_match d (c # cs) of
        None \<Rightarrow> c # rx_sub d cs
      | Some (k, v) \<Rightarrow> v @ rx_sub d (drop (length k - 1) cs))"

text \<open>
  \<open>_make_sub(d)\<close> is \<open>lambda s: s and rx.sub(f, s)\<close>: a falsy argument (\<open>None\<close>, the
  empty string) is returned as it is.
\<close>

definition make_sub :: "subst_dict \<Rightarrow> string option \<Rightarrow> string option" where
  "make_sub d s =
     (case s of
        None \<Rightarrow> None
      | Some t \<Rightarrow> if t = [] then Some t else Some (rx_sub d t))"

text \<open>\<open>_invert_dict\<close>: \<open>{v: k for (k, v) in d.items()}\<close>.\<close>

definition invert_dict :: "subst_dict \<Rightarrow> subst_dict" where
  "invert_dict d = foldl (\<lambda>acc (k, v). AList.update v k acc) [] d"

definition pgencode_dict :: subst_dict where
  "pgencode_dict =
     [([NL], [BS, CHR ''n'']), ([CR], [BS, CHR ''r'']),
      ([TAB], [BS, CHR ''t'']), ([BS], [BS, BS])]"

text \<open>The module-level substituters \<open>_pgencode\<close> and \<open>_pgdecode\<close>.\<close>

definition private_pgencode :: "string option \<Rightarrow> string option" where
  "private_pgencode = make_sub pgencode_dict"

definition private_pgdecode :: "string option \<Rightarrow> string option" where
  "private_pgdecode = make_sub (invert_dict pgencode_dict)"

text \<open>
  The two public entry points.  In the source both bodies are
  \<open>return _pgdecode(text)\<close>; \<open>_pgencode\<close> is never called.
\<close>

definition pgencode :: "string option \<Rightarrow> string option" where
  "pgencode text = private_pgdecode text"

definition pgdecode :: "string option \<Rightarrow> string option" where
  "pgdecode text = private_pgdecode text"

text \<open>
  The decode substitution as the specification words it: each two-character backslash
  escape of newline, carriage return, tab and backslash becomes the character it stands
  for, in one pass from the left; every other character is kept.
\<close>

fun spec_unescape :: "string \<Rightarrow> string" where
  "spec_unescape (a # b # cs) =
     (if a = BS \<and> b = CHR ''n'' then NL # spec_unescape cs
      else if a = BS \<and> b = CHR ''r'' then CR # spec_unescape cs
      else if a = BS \<and> b = CHR ''t'' then TAB # spec_unescape cs
      else if a = BS \<and> b = BS then BS # spec_unescape cs
      else a # spec_unescape (b # cs))"
| "spec_unescape cs = cs"

section \<open>Records: JSON documents\<close>

text \<open>
  What \<open>json.loads\<close> returns: \<open>None\<close>, a bool, an int, a float (kept as its literal
  text; no function below looks inside one), a str, a list, or a dict.  A dict is an
  association list in insertion order; \<open>map_of\<close> reads it and \<open>AList.update\<close> assigns
  to a key in place.
\<close>

datatype json =
    JNull
  | JBool bool
  | JInt int
  | JFloat string
  | JStr string
  | JList "json list"
  | JDict "(string \<times> json) list"

text \<open>\<open>x[name]\<close> for a str \<open>name\<close>: only a dict can be indexed by a str.\<close>

definition subscript :: "json \<Rightarrow> string \<Rightarrow> error + json" where
  "subscript x name =
     (case x of
        JDict kvs \<Rightarrow> (case map_of kvs name of None \<Rightarrow> Inl KeyError | Some v \<Rightarrow> Inr v)
      | _ \<Rightarrow> Inl TypeError)"

text \<open>\<open>x[a][b]\<close>.\<close>

definition subscript2 :: "json \<Rightarrow> string \<Rightarrow> string \<Rightarrow> error + json" where
  "subscript2 x a b = (case subscript x a of Inl e \<Rightarrow> Inl e | Inr y \<Rightarrow> subscript y b)"

section \<open>Key normalization: \<open>_process_key\<close>, \<open>_process_data\<close>\<close>

definition mapping :: "string list" where
  "mapping =
     [''/l/'', ''/languages/'',
      ''/a/'', ''/authors/'',
      ''/b/'', ''/books/'',
      ''/user/'', ''/people/'']"

text \<open>\<open>web.group(mapping, 2)\<close>: the tuple cut into consecutive pairs.\<close>

fun group2 :: "'a list \<Rightarrow> ('a \<times> 'a) list" where
  "group2 (a # b # xs) = (a, b) # group2 xs"
| "group2 xs = []"

text \<open>The loop of \<open>_process_key\<close>: the first old prefix that matches is replaced.\<close>

fun process_key_loop :: "(string \<times> string) list \<Rightarrow> string \<Rightarrow> string" where
  "process_key_loop [] key = key"
| "process_key_loop ((old, new) # m) key =
     (if startswith key old then new @ drop (length old) key else process_key_loop m key)"

definition process_key :: "string \<Rightarrow> string" where
  "process_key key = process_key_loop (group2 mapping) key"

text \<open>\<open>s.replace(' ', 'T')\<close>: every space of \<open>s\<close> becomes a \<open>T\<close>.\<close>

definition replace_space_T :: "string \<Rightarrow> string" where
  "replace_space_T s = map (\<lambda>c. if c = CHR '' '' then CHR ''T'' else c) s"

text \<open>
  \<open>if 'key' in data: data['key'] = _process_key(data['key'])\<close>.  A value that is not
  a str has no \<open>startswith\<close>.
\<close>

definition rewrite_key :: "(string \<times> json) list \<Rightarrow> error + (string \<times> json) list" where
  "rewrite_key data =
     (case map_of data ''key'' of
        None \<Rightarrow> Inr data
      | Some (JStr key) \<Rightarrow> Inr (AList.update ''key'' (JStr (process_key key)) data)
      | Some _ \<Rightarrow> Inl AttributeError)"

text \<open>
  \<open>if data.get('type') == '/type/datetime': data['value'] = data['value'].replace(' ', 'T')\<close>.
\<close>

definition rewrite_datetime :: "(string \<times> json) list \<Rightarrow> error + (string \<times> json) list" where
  "rewrite_datetime data =
     (if map_of data ''type'' = Some (JStr ''/type/datetime'')
      then (case map_of data ''value'' of
              None \<Rightarrow> Inl KeyError
            | Some (JStr v) \<Rightarrow> Inr (AList.update ''value'' (JStr (replace_space_T v)) data)
            | Some _ \<Rightarrow> Inl AttributeError)
      else Inr data)"

text \<open>The size of the values of a dict, the measure of the recursion below.\<close>

definition items_size :: "(string \<times> json) list \<Rightarrow> nat" where
  "items_size kvs = size_list (\<lambda>kv. size (snd kv)) kvs"

lemma items_size_update_str:
  "map_of kvs k \<noteq> None \<Longrightarrow> items_size (AList.update k (JStr s) kvs) \<le> items_size kvs"
  by (induction kvs) (auto simp add: items_size_def)

lemma items_size_rewrite_key: "rewrite_key data = Inr data' \<Longrightarrow> items_size data' \<le> items_size data"
  by (auto simp add: rewrite_key_def items_size_update_str split: option.splits json.splits)

lemma items_size_rewrite_datetime:
  "rewrite_datetime data = Inr data' \<Longrightarrow> items_size data' \<le> items_size data"
  by (auto simp add: rewrite_datetime_def items_size_update_str
      split: option.splits json.splits if_splits)

lemma items_size_JDict: "items_size kvs < size (JDict kvs)"
  by (induction kvs) (auto simp add: items_size_def)

text \<open>
  \<open>_process_data\<close>.  A list is rebuilt from its processed elements; a dict has its
  \<open>key\<close> and its datetime \<open>value\<close> rewritten in place and is then rebuilt from its
  processed values; anything else is returned as it is.
\<close>

function process_data :: "json \<Rightarrow> error + json"
  and process_list :: "json list \<Rightarrow> error + json list"
  and process_items :: "(string \<times> json) list \<Rightarrow> error + (string \<times> json) list"
where
  "process_data (JList ds) =
     (case process_list ds of Inl e \<Rightarrow> Inl e | Inr r \<Rightarrow> Inr (JList r))"
| "process_data (JDict data) =
     (case rewrite_key data of
        Inl e \<Rightarrow> Inl e
      | Inr data1 \<Rightarrow>
          (case rewrite_datetime data1 of
             Inl e \<Rightarrow> Inl e
           | Inr data2 \<Rightarrow>
               (case process_items data2 of Inl e \<Rightarrow> Inl e | Inr r \<Rightarrow> Inr (JDict r))))"
| "process_data JNull = Inr JNull"
| "process_data (JBool b) = Inr (JBool b)"
| "process_data (JInt i) = Inr (JInt i)"
| "process_data (JFloat f) = Inr (JFloat f)"
| "process_data (JStr s) = Inr (JStr s)"
| "process_list [] = Inr []"
| "process_list (d # ds) =
     (case process_data d of
        Inl e \<Rightarrow> Inl e
      | Inr r \<Rightarrow> (case process_list ds of Inl e \<Rightarrow> Inl e | Inr rs \<Rightarrow> Inr (r # rs)))"
| "process_items [] = Inr []"
| "process_items ((k, v) # kvs) =
     (case process_data v of
        Inl e \<Rightarrow> Inl e
      | Inr r \<Rightarrow> (case process_items kvs of Inl e \<Rightarrow> Inl e | Inr rs \<Rightarrow> Inr ((k, r) # rs)))"
  by pat_completeness auto
termination
proof (relation "measure (\<lambda>x. case x of
          Inl d \<Rightarrow> size d
        | Inr (Inl ds) \<Rightarrow> size_list size ds
        | Inr (Inr kvs) \<Rightarrow> items_size kvs)")
  fix data data1 data2
  assume "rewrite_key data = Inr data1" and "rewrite_datetime data1 = Inr data2"
  then have "items_size data2 \<le> items_size data"
    using items_size_rewrite_key items_size_rewrite_datetime le_trans by blast
  with items_size_JDict [of data]
  show "(Inr (Inr data2), Inl (JDict data)) \<in> measure (\<lambda>x. case x of
          Inl d \<Rightarrow> size d
        | Inr (Inl ds) \<Rightarrow> size_list size ds
        | Inr (Inr kvs) \<Rightarrow> items_size kvs)"
    by simp
qed (simp_all add: items_size_def)

section \<open>Datetime values of a document\<close>

text \<open>
  The textual values of the datetime-tagged values of a document, wherever they are
  nested, in the order \<open>_process_data\<close> meets them: a dict whose \<open>type\<close> is the str
  \<open>/type/datetime\<close> contributes its \<open>value\<close>.
\<close>

fun datetime_values :: "json \<Rightarrow> string list"
  and datetime_values_list :: "json list \<Rightarrow> string list"
  and datetime_values_items :: "(string \<times> json) list \<Rightarrow> string list"
where
  "datetime_values (JList ds) = datetime_values_list ds"
| "datetime_values (JDict data) =
     (if map_of data ''type'' = Some (JStr ''/type/datetime'')
      then (case map_of data ''value'' of Some (JStr v) \<Rightarrow> [v] | _ \<Rightarrow> [])
      else []) @ datetime_values_items data"
| "datetime_values JNull = []"
| "datetime_values (JBool b) = []"
| "datetime_values (JInt i) = []"
| "datetime_values (JFloat f) = []"
| "datetime_values (JStr s) = []"
| "datetime_values_list [] = []"
| "datetime_values_list (d # ds) = datetime_values d @ datetime_values_list ds"
| "datetime_values_items [] = []"
| "datetime_values_items ((k, v) # kvs) = datetime_values v @ datetime_values_items kvs"

text \<open>The number of positions at which a rewritten text differs from the original.\<close>

definition substitutions :: "string \<Rightarrow> string \<Rightarrow> nat" where
  "substitutions old new = length (filter (\<lambda>(a, b). a \<noteq> b) (zip old new))"

text \<open>
  The rewrite as the specification words it: the space that separates date and time,
  the first one, becomes a \<open>T\<close>, and nothing else changes.
\<close>

fun spec_separator_to_T :: "string \<Rightarrow> string" where
  "spec_separator_to_T [] = []"
| "spec_separator_to_T (c # cs) =
     (if c = CHR '' '' then CHR ''T'' # cs else c # spec_separator_to_T cs)"

section \<open>Full-snapshot generator: \<open>print_dump\<close>, \<open>generate_cdump\<close>\<close>

text \<open>
  A printed line, before its fields are joined by tabs: \<open>type\<close>, \<open>key\<close>,
  \<open>d['revision']\<close> (printed through \<open>str\<close>), \<open>timestamp\<close> and the document that
  \<open>json.dumps\<close> serializes.
\<close>

record dump_row =
  row_type :: string
  row_key :: string
  row_revision :: json
  row_timestamp :: string
  row_json :: json

text \<open>
  \<open>d.pop('id', None)\<close>: a dict loses its \<open>id\<close>; \<open>list.pop\<close> takes one argument at
  most; nothing else that \<open>json.loads\<close> returns has a \<open>pop\<close>.
\<close>

definition pop_id :: "json \<Rightarrow> error + json" where
  "pop_id d =
     (case d of
        JDict kvs \<Rightarrow> Inr (JDict (AList.delete ''id'' kvs))
      | JList ds \<Rightarrow> Inl TypeError
      | _ \<Rightarrow> Inl AttributeError)"

text \<open>
  A field handed to \<open>"\t".join\<close> has to be a str.  (\<open>web.safestr\<close> is the identity on
  a str, and \<open>d['key']\<close> is a str once \<open>_process_data\<close> has returned.)
\<close>

definition str_field :: "json \<Rightarrow> error + string" where
  "str_field x = (case x of JStr s \<Rightarrow> Inr s | _ \<Rightarrow> Inl TypeError)"

text \<open>The two \<open>continue\<close> tests on the key.\<close>

definition skip_user_admin :: "string \<Rightarrow> bool" where
  "skip_user_admin key = (startswith key ''/people/'' \<or> startswith key ''/admin/'')"

definition skip_obsolete :: "string \<Rightarrow> bool" where
  "skip_obsolete key =
     ((startswith key ''/b/'' \<or> startswith key ''/scan'' \<or> startswith key ''/old/'')
      \<or> \<not> startswith key ''/'')"

text \<open>
  \<open>if filter and filter(d) is False\<close>: without a filter the record is kept; a filter
  may raise.
\<close>

definition apply_filter :: "(json \<Rightarrow> error + bool) option \<Rightarrow> json \<Rightarrow> error + bool" where
  "apply_filter flt d = (case flt of None \<Rightarrow> Inr True | Some f \<Rightarrow> f d)"

text \<open>
  The final \<open>print\<close>: \<open>d['revision']\<close> is read while the list of fields is built, then
  \<open>join\<close> needs \<open>type\<close> and \<open>timestamp\<close> to be strs.
\<close>

definition print_row :: "json \<Rightarrow> string \<Rightarrow> json \<Rightarrow> json \<Rightarrow> error + dump_row" where
  "print_row type key timestamp d =
     (case subscript d ''revision'' of
        Inl e \<Rightarrow> Inl e
      | Inr revision \<Rightarrow>
          (case str_field type of
             Inl e \<Rightarrow> Inl e
           | Inr ty \<Rightarrow>
               (case str_field timestamp of
                  Inl e \<Rightarrow> Inl e
                | Inr ts \<Rightarrow>
                    Inr \<lparr>row_type = ty, row_key = key, row_revision = revision,
                         row_timestamp = ts, row_json = d\<rparr>)))"

text \<open>
  The tests of the loop body on the normalized document \<open>d\<close>, once \<open>key\<close>, \<open>type\<close> and
  \<open>timestamp\<close> have been read: \<open>None\<close> is a \<open>continue\<close>.
\<close>

definition emit :: "(json \<Rightarrow> error + bool) option \<Rightarrow> json \<Rightarrow> string \<Rightarrow> json \<Rightarrow> json \<Rightarrow>
    error + dump_row option" where
  "emit flt d key type timestamp =
     (if skip_user_admin key then Inr None
      else if skip_obsolete key then Inr None
      else (case apply_filter flt d of
              Inl e \<Rightarrow> Inl e
            | Inr keep \<Rightarrow>
                if \<not> keep then Inr None
                else (case print_row type key timestamp d of
                        Inl e \<Rightarrow> Inl e
                      | Inr row \<Rightarrow> Inr (Some row))))"

text \<open>
  One iteration of the loop of \<open>print_dump\<close> on a parsed record (the value of
  \<open>json.loads(json_data)\<close>): an exception, a \<open>continue\<close>, or a printed line.
\<close>

definition dump_record :: "(json \<Rightarrow> error + bool) option \<Rightarrow> json \<Rightarrow> error + dump_row option" where
  "dump_record flt json_data =
     (case pop_id json_data of
        Inl e \<Rightarrow> Inl e
      | Inr d0 \<Rightarrow>
     (case process_data d0 of
        Inl e \<Rightarrow> Inl e
      | Inr d \<Rightarrow>
     (case subscript d ''key'' of
        Inl e \<Rightarrow> Inl e
      | Inr k \<Rightarrow>
     (case str_field k of
        Inl e \<Rightarrow> Inl e
      | Inr key \<Rightarrow>
     (case subscript2 d ''type'' ''key'' of
        Inl e \<Rightarrow> Inl e
      | Inr type \<Rightarrow>
     (case subscript2 d ''last_modified'' ''value'' of
        Inl e \<Rightarrow> Inl e
      | Inr timestamp \<Rightarrow> emit flt d key type timestamp))))))"

text \<open>
  \<open>print_dump\<close>: the lines printed, in order, and the exception that ended the run, if
  one did.  Lines printed before an exception stay printed.  The progress lines that
  \<open>log\<close> writes to \<open>sys.stderr\<close> are not part of the output.
\<close>

fun print_dump :: "json list \<Rightarrow> (json \<Rightarrow> error + bool) option \<Rightarrow> dump_row list \<times> error option" where
  "print_dump [] flt = ([], None)"
| "print_dump (json_data # json_records) flt =
     (case dump_record flt json_data of
        Inl e \<Rightarrow> ([], Some e)
      | Inr None \<Rightarrow> print_dump json_records flt
      | Inr (Some row) \<Rightarrow>
          (case print_dump json_records flt of (out, err) \<Rightarrow> (row # out, err)))"

text \<open>
  The filter of \<open>generate_cdump\<close>: \<open>lambda doc: doc['last_modified']['value'] < date + "Z"\<close>.
  Strs compare lexicographically by code point, which is the lexicographic order of
  their UTF-8 bytes; a str does not compare with anything else.
\<close>

definition cdump_filter :: "string \<Rightarrow> json \<Rightarrow> error + bool" where
  "cdump_filter date doc =
     (case subscript2 doc ''last_modified'' ''value'' of
        Inl e \<Rightarrow> Inl e
      | Inr (JStr ts) \<Rightarrow> Inr (ts < date @ ''Z'')
      | Inr _ \<Rightarrow> Inl TypeError)"

text \<open>
  \<open>generate_cdump\<close> on the parsed records of the data file.
  \<open>filter = date and (lambda ...)\<close>: no filter without a date or with an empty one.
\<close>

definition generate_cdump :: "json list \<Rightarrow> string option \<Rightarrow> dump_row list \<times> error option" where
  "generate_cdump records date =
     print_dump records
       (case date of
          None \<Rightarrow> None
        | Some dt \<Rightarrow> if dt = [] then None else Some (cdump_filter dt))"

section \<open>Lines and fields\<close>

text \<open>The whitespace that \<open>strip()\<close> removes from both ends of a line.\<close>

definition is_space :: "char \<Rightarrow> bool" where
  "is_space c = (c \<in> set [CHR '' '', TAB, NL, CR, CHR 0x0B, CHR 0x0C])"

definition strip :: "string \<Rightarrow> string" where
  "strip s = rev (dropWhile is_space (rev (dropWhile is_space s)))"

text \<open>\<open>line.split("\t")\<close>: the fields between the tabs, one more than there are tabs.\<close>

fun split_tab :: "string \<Rightarrow> string list" where
  "split_tab [] = [[]]"
| "split_tab (c # cs) =
     (if c = TAB then [] # split_tab cs
      else (case split_tab cs of [] \<Rightarrow> [[c]] | f # fs \<Rightarrow> (c # f) # fs))"

text \<open>\<open>"\t".join(row)\<close>.\<close>

fun tjoin :: "string list \<Rightarrow> string" where
  "tjoin [] = []"
| "tjoin [f] = f"
| "tjoin (f # g # fs) = f @ TAB # tjoin (g # fs)"

text \<open>
  \<open>int(s)\<close> for a str of ASCII characters: the whitespace of \<open>strip()\<close> above is
  dropped from both ends (space, tab, newline, vertical tab, form feed and carriage
  return, and nothing else), a sign may lead, and the decimal digits may be separated
  by single underscores; more digits than \<open>sys.get_int_max_str_digits()\<close>, 4300 by
  default, and anything else are a \<open>ValueError\<close>.  A text with a character outside
  ASCII is a \<open>ValueError\<close> here, although \<open>int\<close> reads the decimal digits and the
  spaces of other scripts: no statement below is about the revision of such a text.
\<close>

definition int_max_str_digits :: nat where
  "int_max_str_digits = 4300"

definition is_digit :: "char \<Rightarrow> bool" where
  "is_digit c = (CHR ''0'' \<le> c \<and> c \<le> CHR ''9'')"

definition digit_value :: "char \<Rightarrow> int" where
  "digit_value c = int (of_char c) - 48"

fun parse_digits :: "int \<Rightarrow> string \<Rightarrow> int option" where
  "parse_digits acc [] = Some acc"
| "parse_digits acc [c] = (if is_digit c then Some (10 * acc + digit_value c) else None)"
| "parse_digits acc (c # d # ds) =
     (if is_digit c then parse_digits (10 * acc + digit_value c) (d # ds)
      else if c = CHR ''_'' \<and> is_digit d then parse_digits (10 * acc + digit_value d) ds
      else None)"

definition parse_decimal :: "string \<Rightarrow> int option" where
  "parse_decimal s =
     (if int_max_str_digits < length (filter is_digit s) then None
      else (case s of
              [] \<Rightarrow> None
            | c # cs \<Rightarrow> if is_digit c then parse_digits (digit_value c) cs else None))"

definition py_int :: "string \<Rightarrow> error + int" where
  "py_int s =
     (let t = strip s;
          parsed =
            (if t \<noteq> [] \<and> hd t = CHR ''-'' then map_option uminus (parse_decimal (tl t))
             else if t \<noteq> [] \<and> hd t = CHR ''+'' then parse_decimal (tl t)
             else parse_decimal t)
      in case parsed of None \<Rightarrow> Inl ValueError | Some i \<Rightarrow> Inr i)"

section \<open>External merge sort: \<open>sort_dump\<close>\<close>

text \<open>\<open>os.path.join(a, b)\<close> on a POSIX system.\<close>

definition path_join :: "string \<Rightarrow> string \<Rightarrow> string" where
  "path_join a b =
     (if startswith b ''/'' then b
      else if a = [] \<or> last a = CHR ''/'' then a @ b
      else a @ ''/'' @ b)"

text \<open>\<open>"%02x" % i\<close> for the bucket numbers, which are below 256.\<close>

definition hex_digit :: "nat \<Rightarrow> char" where
  "hex_digit n = ''0123456789abcdef'' ! n"

definition hex02 :: "nat \<Rightarrow> string" where
  "hex02 i = [hex_digit (i div 16 mod 16), hex_digit (i mod 16)]"

text \<open>
  \<open>filenames = [os.path.join(tmpdir, "%02x.txt.gz" % i) for i in range(256)]\<close>, where
  \<open>tmpdir\<close> has been joined with \<open>oldumpsort\<close>.
\<close>

definition filenames :: "string \<Rightarrow> string list" where
  "filenames tmpdir =
     map (\<lambda>i. path_join (path_join tmpdir ''oldumpsort'') (hex02 i @ ''.txt.gz'')) [0..<256]"

text \<open>
  The bucket of a line, \<open>hash(key) % 256\<close>, where \<open>key\<close> is the second of the five
  fields of the stripped line.  The builtin \<open>hash\<close> is a function of the key within
  one run of the interpreter; it is the parameter \<open>h\<close>.
\<close>

definition line_fields :: "string \<Rightarrow> string list" where
  "line_fields line = split_tab (strip line)"

definition findex :: "(string \<Rightarrow> int) \<Rightarrow> string \<Rightarrow> nat" where
  "findex h line = nat (h (line_fields line ! 1) mod 256)"

text \<open>
  The splitting loop.  \<open>files\<close> holds what has been written to each of the 256 files;
  a line that does not have five fields cannot be unpacked, which ends the run with
  the files as they are.
\<close>

fun split_lines :: "(string \<Rightarrow> int) \<Rightarrow> string list \<Rightarrow> string list list \<Rightarrow>
    string list list \<times> error option" where
  "split_lines h [] files = (files, None)"
| "split_lines h (line # stdin) files =
     (if length (line_fields line) \<noteq> 5 then (files, Some ValueError)
      else split_lines h stdin
             (files[findex h line := files ! findex h line @ [line]]))"

text \<open>The command line handed to \<open>os.system\<close> for one file.\<close>

definition sort_command :: "string \<Rightarrow> string \<Rightarrow> string" where
  "sort_command fname buffer_size =
     ''gzip -cd '' @ fname @ '' | sort -S'' @ buffer_size @ '' -k2,3''"

text \<open>
  The sorting loop.  \<open>system\<close> gives the status that \<open>os.system\<close> returns for a command
  line.  The result is the list of the command lines run, in order, and the exception
  raised, if any.
\<close>

fun sort_files :: "(string \<Rightarrow> int) \<Rightarrow> string \<Rightarrow> string list \<Rightarrow> string list \<times> error option" where
  "sort_files system buffer_size [] = ([], None)"
| "sort_files system buffer_size (fname # fnames) =
     (let status = system (sort_command fname buffer_size) in
      if status \<noteq> 0 then ([sort_command fname buffer_size], Some (SortFailed status))
      else (case sort_files system buffer_size fnames of
              (run, err) \<Rightarrow> (sort_command fname buffer_size # run, err)))"

text \<open>
  What a run of \<open>sort_dump\<close> leaves behind: the contents of the files, the commands
  run and the exception raised, if any.  Creating the directory and opening and writing
  the files are taken to succeed.
\<close>

record sort_run =
  files :: "string list list"
  commands :: "string list"
  raised :: "error option"

definition sort_dump :: "(string \<Rightarrow> int) \<Rightarrow> (string \<Rightarrow> int) \<Rightarrow> string list \<Rightarrow> string \<Rightarrow> string \<Rightarrow>
    sort_run" where
  "sort_dump h system stdin tmpdir buffer_size =
     (case split_lines h stdin (replicate 256 []) of
        (fs, Some e) \<Rightarrow> \<lparr>files = fs, commands = [], raised = Some e\<rparr>
      | (fs, None) \<Rightarrow>
          (case sort_files system buffer_size (filenames tmpdir) of
             (run, err) \<Rightarrow> \<lparr>files = fs, commands = run, raised = err\<rparr>))"

section \<open>Revision collapse: \<open>generate_dump\<close>\<close>

text \<open>
  The two key functions of \<open>process\<close> on a row of \<open>read_tsv\<close>: \<open>cols[1]\<close> and
  \<open>int(cols[2])\<close>.
\<close>

definition key_of :: "string list \<Rightarrow> error + string" where
  "key_of cols = (if 1 < length cols then Inr (cols ! 1) else Inl IndexError)"

definition revision :: "string list \<Rightarrow> error + int" where
  "revision cols = (if 2 < length cols then py_int (cols ! 2) else Inl IndexError)"

text \<open>
  \<open>max(rows, key=revision)\<close> over one group of \<open>itertools.groupby\<close>, after the first
  row of the group: \<open>best\<close> is the maximal row so far and \<open>best_rev\<close> its revision.
  The group iterator reads the next row and computes its key; a row with the key of
  the group is compared, and replaces \<open>best\<close> when its revision is greater; a row with
  another key ends the group and stays in the input.
\<close>

fun max_rows :: "string \<Rightarrow> string list \<Rightarrow> int \<Rightarrow> string list list \<Rightarrow>
    error + (string list \<times> string list list)" where
  "max_rows key best best_rev [] = Inr (best, [])"
| "max_rows key best best_rev (row # data) =
     (case key_of row of
        Inl e \<Rightarrow> Inl e
      | Inr k \<Rightarrow>
          if k \<noteq> key then Inr (best, row # data)
          else (case revision row of
                  Inl e \<Rightarrow> Inl e
                | Inr r \<Rightarrow>
                    if best_rev < r then max_rows key row r data
                    else max_rows key best best_rev data))"

lemma max_rows_length:
  "max_rows key best best_rev data = Inr (row, rest) \<Longrightarrow> length rest \<le> length data"
proof (induction data arbitrary: best best_rev)
  case Nil
  then show ?case by simp
next
  case (Cons r data)
  then show ?case
    by (fastforce split: sum.splits if_splits)
qed

text \<open>
  The generator \<open>process\<close>: the rows yielded, in order, and the exception that ended
  the iteration, if one did.
\<close>

function process :: "string list list \<Rightarrow> string list list \<times> error option" where
  "process [] = ([], None)"
| "process (row # data) =
     (case key_of row of
        Inl e \<Rightarrow> ([], Some e)
      | Inr key \<Rightarrow>
          (case revision row of
             Inl e \<Rightarrow> ([], Some e)
           | Inr r \<Rightarrow>
               (case max_rows key row r data of
                  Inl e \<Rightarrow> ([], Some e)
                | Inr (best, rest) \<Rightarrow>
                    (case process rest of (out, err) \<Rightarrow> (best # out, err)))))"
  by pat_completeness auto
termination
proof (relation "measure length")
  fix row data key r x best rest
  assume "max_rows key row r data = Inr x" and "(best, rest) = x"
  then have "length rest \<le> length data"
    using max_rows_length [of key row r data best rest] by simp
  then show "(rest, row # data) \<in> measure length" by simp
qed simp

text \<open>
  \<open>generate_dump\<close> on the lines of the cdump file: \<open>read_tsv\<close> with \<open>strip=False\<close>
  splits each line, and the rows that \<open>process\<close> yields are written joined by tabs.
\<close>

definition generate_dump :: "string list \<Rightarrow> string list \<times> error option" where
  "generate_dump lines =
     (case process (map split_tab lines) of (out, err) \<Rightarrow> (map tjoin out, err))"

text \<open>
  The precondition of \<open>generate_dump\<close>: the rows with the same key are consecutive.
\<close>

definition key_grouped :: "string list list \<Rightarrow> bool" where
  "key_grouped data = distinct (remdups_adj (map (\<lambda>cols. cols ! 1) data))"

text \<open>A row whose revision \<open>int(cols[2])\<close> can be computed, and that revision.\<close>

definition row_ok :: "string list \<Rightarrow> bool" where
  "row_ok cols = (case revision cols of Inl e \<Rightarrow> False | Inr r \<Rightarrow> True)"

definition revision_value :: "string list \<Rightarrow> int" where
  "revision_value cols = (case revision cols of Inl e \<Rightarrow> 0 | Inr r \<Rightarrow> r)"

text \<open>A line of a dump, for the examples below.\<close>

definition example_line :: "string \<Rightarrow> string \<Rightarrow> string \<Rightarrow> string" where
  "example_line key rev_text payload =
     tjoin [''/type/work'', key, rev_text, ''2020-01-01T00:00:00'', payload] @ [NL]"

text \<open>A record of the revision store, for the examples below.\<close>

definition example_items :: "string \<Rightarrow> string \<Rightarrow> (string \<times> json) list" where
  "example_items key modified =
     [(''id'', JInt 7), (''key'', JStr key),
      (''type'', JDict [(''key'', JStr ''/type/work'')]),
      (''revision'', JInt 2),
      (''last_modified'',
         JDict [(''type'', JStr ''/type/datetime''), (''value'', JStr modified)])]"

definition example_record :: "string \<Rightarrow> string \<Rightarrow> json" where
  "example_record key modified = JDict (example_items key modified)"

text \<open>The line printed for it when it is not skipped.\<close>

definition example_row :: "string \<Rightarrow> string \<Rightarrow> dump_row" where
  "example_row key timestamp =
     \<lparr>row_type = ''/type/work'', row_key = key, row_revision = JInt 2,
      row_timestamp = timestamp,
      row_json = JDict [(''key'', JStr key),
        (''type'', JDict [(''key'', JStr ''/type/work'')]),
        (''revision'', JInt 2),
        (''last_modified'',
           JDict [(''type'', JStr ''/type/datetime''), (''value'', JStr timestamp)])]\<rparr>"

section \<open>Properties of the text codec\<close>

lemma invert_pgencode_dict:
  "invert_dict pgencode_dict =
     [([BS, CHR ''n''], [NL]), ([BS, CHR ''r''], [CR]),
      ([BS, CHR ''t''], [TAB]), ([BS, BS], [BS])]"
  by (simp add: invert_dict_def pgencode_dict_def BS_def NL_def CR_def TAB_def)

text \<open>The doctest of \<open>_make_sub\<close>: \<open>_make_sub(dict(a='aa', bb='b'))('aabbb') == 'aaaabb'\<close>.\<close>

lemma make_sub_doctest:
  "make_sub [(''a'', ''aa''), (''bb'', ''b'')] (Some ''aabbb'') = Some ''aaaabb''"
  by (simp add: make_sub_def startswith_def)

text \<open>The doctest of \<open>pgdecode\<close>: \<open>pgdecode('\\n') == '\n'\<close>.\<close>

lemma pgdecode_doctest: "pgdecode (Some [BS, CHR ''n'']) = Some [NL]"
  by (simp add: pgdecode_def private_pgdecode_def make_sub_def invert_pgencode_dict
      startswith_def)

lemma rx_sub_encode_Cons:
  "rx_sub pgencode_dict (c # cs) =
     (if c = NL then [BS, CHR ''n'']
      else if c = CR then [BS, CHR ''r'']
      else if c = TAB then [BS, CHR ''t'']
      else if c = BS then [BS, BS]
      else [c]) @ rx_sub pgencode_dict cs"
  by (simp add: pgencode_dict_def startswith_def)

lemma rx_sub_decode_escape:
  "(a, b) \<in> {(BS, CHR ''n''), (BS, CHR ''r''), (BS, CHR ''t''), (BS, BS)} \<Longrightarrow>
   rx_sub (invert_dict pgencode_dict) (a # b # cs) =
     (if b = CHR ''n'' then NL else if b = CHR ''r'' then CR
      else if b = CHR ''t'' then TAB else BS) # rx_sub (invert_dict pgencode_dict) cs"
  by (auto simp add: invert_pgencode_dict startswith_def BS_def)

lemma rx_sub_decode_plain:
  "c \<noteq> BS \<Longrightarrow>
   rx_sub (invert_dict pgencode_dict) (c # cs) = c # rx_sub (invert_dict pgencode_dict) cs"
  by (simp add: invert_pgencode_dict startswith_def)

text \<open>
  The substituter \<open>_pgencode\<close>, which \<open>pgencode\<close> does not call, is inverted by
  \<open>_pgdecode\<close> on every input.
\<close>

lemma rx_sub_decode_encode:
  "rx_sub (invert_dict pgencode_dict) (rx_sub pgencode_dict s) = s"
proof (induction s)
  case Nil
  show ?case by simp
next
  case (Cons c cs)
  have plain: "c \<noteq> NL \<Longrightarrow> c \<noteq> CR \<Longrightarrow> c \<noteq> TAB \<Longrightarrow> c \<noteq> BS \<Longrightarrow> ?case"
    by (simp add: rx_sub_encode_Cons rx_sub_decode_plain Cons.IH del: rx_sub.simps)
  have esc: "c = NL \<or> c = CR \<or> c = TAB \<or> c = BS \<Longrightarrow> ?case"
    by (auto simp add: rx_sub_encode_Cons rx_sub_decode_escape Cons.IH
        NL_def CR_def TAB_def BS_def simp del: rx_sub.simps)
  from plain esc show ?case by blast
qed

lemma private_codec_roundtrip: "private_pgdecode (private_pgencode s) = s"
proof (cases s)
  case None
  then show ?thesis by (simp add: private_pgdecode_def private_pgencode_def make_sub_def)
next
  case (Some t)
  show ?thesis
  proof (cases t)
    case Nil
    with Some show ?thesis
      by (simp add: private_pgdecode_def private_pgencode_def make_sub_def)
  next
    case (Cons c cs)
    have "rx_sub pgencode_dict (c # cs) \<noteq> []"
      by (simp add: rx_sub_encode_Cons del: rx_sub.simps)
    with Some Cons rx_sub_decode_encode [of "c # cs"] show ?thesis
      by (simp add: private_pgdecode_def private_pgencode_def make_sub_def)
  qed
qed

lemma rx_sub_decode_spec:
  "rx_sub (invert_dict pgencode_dict) s = spec_unescape s"
proof (induction s rule: spec_unescape.induct)
  case (1 a b cs)
  show ?case
  proof (cases "a = BS \<and> b \<in> {CHR ''n'', CHR ''r'', CHR ''t'', BS}")
    case True
    then have "(a, b) \<in> {(BS, CHR ''n''), (BS, CHR ''r''), (BS, CHR ''t''), (BS, BS)}"
      by auto
    from rx_sub_decode_escape [OF this] True 1 show ?thesis
      by (auto simp add: BS_def)
  next
    case False
    then have "rx_sub (invert_dict pgencode_dict) (a # b # cs) =
        a # rx_sub (invert_dict pgencode_dict) (b # cs)"
      by (auto simp add: invert_pgencode_dict startswith_def)
    with False 1 show ?thesis by auto
  qed
qed (simp_all add: invert_pgencode_dict startswith_def)

text \<open>
  C1 (evaluation at the failing input).  For the two-character text backslash, \<open>n\<close>,
  \<open>pgencode\<close> returns a newline and \<open>pgdecode\<close> leaves the newline as it is, so the
  round trip returns a newline and not the text it was given.
\<close>

theorem pgdecode_pgencode_backslash_n:
  "pgencode (Some [BS, CHR ''n'']) = Some [NL] \<and>
   pgdecode (pgencode (Some [BS, CHR ''n''])) = Some [NL] \<and>
   pgdecode (pgencode (Some [BS, CHR ''n''])) \<noteq> Some [BS, CHR ''n'']"
  by (simp add: pgencode_def pgdecode_def private_pgdecode_def make_sub_def
      invert_pgencode_dict startswith_def NL_def BS_def)

text \<open>
  C3.  On every argument, \<open>None\<close> and the empty string included, \<open>pgencode\<close> returns
  what \<open>pgdecode\<close> returns, and both perform the decode substitution: \<open>None\<close> is
  returned for \<open>None\<close>, and a text is returned with its backslash escapes replaced by
  the characters they stand for.
\<close>

theorem pgencode_eq_pgdecode:
  "pgencode s = pgdecode s \<and>
   pgencode None = None \<and>
   pgencode (Some []) = Some [] \<and>
   pgencode (Some t) = Some (spec_unescape t) \<and>
   pgdecode (Some t) = Some (spec_unescape t)"
proof -
  have "private_pgdecode (Some t) = Some (spec_unescape t)"
    by (cases t)
      (simp_all add: private_pgdecode_def make_sub_def rx_sub_decode_spec del: rx_sub.simps)
  moreover have "private_pgdecode None = None"
    by (simp add: private_pgdecode_def make_sub_def)
  moreover have "private_pgdecode (Some []) = Some []"
    by (simp add: private_pgdecode_def make_sub_def)
  ultimately show ?thesis
    by (simp add: pgencode_def pgdecode_def)
qed

theorem pgencode_eq_pgdecode_witness:
  "pgencode (Some [CHR ''a'', BS, CHR ''t'', CHR ''b'']) = Some [CHR ''a'', TAB, CHR ''b''] \<and>
   pgdecode (Some [CHR ''a'', BS, CHR ''t'', CHR ''b'']) = Some [CHR ''a'', TAB, CHR ''b'']"
  using pgencode_eq_pgdecode [of "Some [CHR ''a'', BS, CHR ''t'', CHR ''b'']"
      "[CHR ''a'', BS, CHR ''t'', CHR ''b'']"]
  by (simp add: BS_def TAB_def)

section \<open>Properties of key normalization\<close>

lemma process_key_cases:
  "process_key key =
     (if startswith key ''/l/'' then ''/languages/'' @ drop 3 key
      else if startswith key ''/a/'' then ''/authors/'' @ drop 3 key
      else if startswith key ''/b/'' then ''/books/'' @ drop 3 key
      else if startswith key ''/user/'' then ''/people/'' @ drop 6 key
      else key)"
  by (simp add: process_key_def mapping_def eval_nat_numeral)

lemma process_key_idem: "process_key (process_key key) = process_key key"
  by (simp add: process_key_cases startswith_def)

lemma replace_space_T_idem: "replace_space_T (replace_space_T s) = replace_space_T s"
  by (simp add: replace_space_T_def)

lemma process_data_str_iff:
  "process_data v = Inr v' \<Longrightarrow> (v' = JStr s) = (v = JStr s)"
  by (cases v) (auto split: sum.splits)

lemma process_items_map_of_Some:
  "process_items kvs = Inr kvs' \<Longrightarrow> map_of kvs' k = Some v' \<Longrightarrow>
   \<exists>v. map_of kvs k = Some v \<and> process_data v = Inr v'"
proof (induction kvs arbitrary: kvs')
  case Nil
  then show ?case by simp
next
  case (Cons kv kvs)
  obtain a b where kv: "kv = (a, b)" by (cases kv)
  from Cons.prems(1) kv obtain r rs where
    r: "process_data b = Inr r" and rs: "process_items kvs = Inr rs" and kvs': "kvs' = (a, r) # rs"
    by (auto split: sum.splits)
  show ?case
  proof (cases "k = a")
    case True
    with Cons.prems(2) kvs' kv r show ?thesis by simp
  next
    case False
    with Cons.prems(2) kvs' have "map_of rs k = Some v'" by simp
    from Cons.IH [OF rs this] False kv show ?thesis by simp
  qed
qed

lemma process_items_map_of_None:
  "process_items kvs = Inr kvs' \<Longrightarrow> (map_of kvs' k = None) = (map_of kvs k = None)"
proof (induction kvs arbitrary: kvs')
  case Nil
  then show ?case by simp
next
  case (Cons kv kvs)
  then show ?case
    by (cases kv) (auto split: sum.splits if_splits)
qed

lemma process_items_map_of_str:
  assumes "process_items kvs = Inr kvs'"
  shows "(map_of kvs' k = Some (JStr s)) = (map_of kvs k = Some (JStr s))"
proof
  assume "map_of kvs' k = Some (JStr s)"
  with assms obtain v where "map_of kvs k = Some v" and "process_data v = Inr (JStr s)"
    using process_items_map_of_Some by blast
  then show "map_of kvs k = Some (JStr s)"
    using process_data_str_iff [of v "JStr s" s] by simp
next
  assume a: "map_of kvs k = Some (JStr s)"
  with assms have "map_of kvs' k \<noteq> None"
    by (simp add: process_items_map_of_None)
  then obtain v' where v': "map_of kvs' k = Some v'" by blast
  with assms obtain v where "map_of kvs k = Some v" and "process_data v = Inr v'"
    using process_items_map_of_Some by blast
  with a v' show "map_of kvs' k = Some (JStr s)" by simp
qed

text \<open>What the two in-place rewrites leave in the dict.\<close>

lemma rewrite_key_map_of:
  assumes "rewrite_key data = Inr data1"
  shows "map_of data1 ''key'' =
           (case map_of data ''key'' of None \<Rightarrow> None | Some v \<Rightarrow>
              (case v of JStr key \<Rightarrow> Some (JStr (process_key key)) | _ \<Rightarrow> Some v))"
    and "k \<noteq> ''key'' \<Longrightarrow> map_of data1 k = map_of data k"
  using assms
  by (auto simp add: rewrite_key_def update_conv' split: option.splits json.splits)

lemma rewrite_datetime_map_of:
  assumes "rewrite_datetime data1 = Inr data2"
  shows "k \<noteq> ''value'' \<Longrightarrow> map_of data2 k = map_of data1 k"
    and "map_of data1 ''type'' \<noteq> Some (JStr ''/type/datetime'') \<Longrightarrow> data2 = data1"
    and "map_of data1 ''type'' = Some (JStr ''/type/datetime'') \<Longrightarrow>
         \<exists>v. map_of data1 ''value'' = Some (JStr v) \<and>
             map_of data2 ''value'' = Some (JStr (replace_space_T v))"
  using assms
  by (auto simp add: rewrite_datetime_def update_conv' split: option.splits json.splits if_splits)

lemma rewrite_key_fixed:
  "map_of r ''key'' = None \<or> map_of r ''key'' = Some (JStr (process_key key)) \<Longrightarrow>
   rewrite_key r = Inr r"
  by (auto simp add: rewrite_key_def process_key_idem update_triv)

lemma rewrite_datetime_fixed:
  "map_of r ''type'' \<noteq> Some (JStr ''/type/datetime'') \<or>
   map_of r ''value'' = Some (JStr (replace_space_T v)) \<Longrightarrow>
   rewrite_datetime r = Inr r"
  by (auto simp add: rewrite_datetime_def replace_space_T_idem update_triv)

text \<open>The dict that \<open>_process_data\<close> returns for a dict.\<close>

lemma process_data_JDict:
  "process_data (JDict data) = Inr d \<Longrightarrow>
   \<exists>data1 data2 r. rewrite_key data = Inr data1 \<and> rewrite_datetime data1 = Inr data2 \<and>
     process_items data2 = Inr r \<and> d = JDict r"
  by (auto split: sum.splits)

lemma process_data_key:
  assumes "process_data (JDict data) = Inr (JDict r)"
  shows "map_of r ''key'' = None \<and> map_of data ''key'' = None \<or>
         (\<exists>key. map_of data ''key'' = Some (JStr key) \<and>
                map_of r ''key'' = Some (JStr (process_key key)))"
proof -
  from assms obtain data1 data2 where
    1: "rewrite_key data = Inr data1" and 2: "rewrite_datetime data1 = Inr data2"
    and 3: "process_items data2 = Inr r"
    using process_data_JDict [of data "JDict r"] by auto
  have k2: "map_of data2 ''key'' = map_of data1 ''key''"
    using rewrite_datetime_map_of(1) [OF 2, of "''key''"] by simp
  show ?thesis
  proof (cases "map_of data ''key''")
    case None
    with rewrite_key_map_of(1) [OF 1] k2 have "map_of data2 ''key'' = None" by simp
    with 3 None show ?thesis by (simp add: process_items_map_of_None)
  next
    case (Some v)
    with 1 obtain key where v: "v = JStr key"
      by (cases v) (auto simp add: rewrite_key_def)
    with Some rewrite_key_map_of(1) [OF 1] k2
    have "map_of data2 ''key'' = Some (JStr (process_key key))" by simp
    with 3 Some v show ?thesis by (simp add: process_items_map_of_str)
  qed
qed

text \<open>A document that \<open>_process_data\<close> has returned is returned unchanged.\<close>

lemma process_data_idem_aux:
  "(\<forall>d'. process_data d = Inr d' \<longrightarrow> process_data d' = Inr d')"
  and "(\<forall>ds'. process_list ds = Inr ds' \<longrightarrow> process_list ds' = Inr ds')"
  and "(\<forall>kvs'. process_items kvs = Inr kvs' \<longrightarrow> process_items kvs' = Inr kvs')"
proof (induction d and ds and kvs rule: process_data_process_list_process_items.induct)
  case (1 ds)
  then show ?case by (auto split: sum.splits)
next
  case (2 data)
  have "process_data d' = Inr d'" if d': "process_data (JDict data) = Inr d'" for d'
  proof -
    from d' obtain data1 data2 r where
      1: "rewrite_key data = Inr data1" and 2: "rewrite_datetime data1 = Inr data2"
      and 3: "process_items data2 = Inr r" and r: "d' = JDict r"
      using process_data_JDict by blast
    from "2.IH" [OF 1 2] 3 have items: "process_items r = Inr r" by blast
    from d' r process_data_key [of data r]
    have "map_of r ''key'' = None \<or> (\<exists>key. map_of r ''key'' = Some (JStr (process_key key)))"
      by auto
    then have key: "rewrite_key r = Inr r"
      using rewrite_key_fixed by blast
    have "rewrite_datetime r = Inr r"
    proof (cases "map_of data1 ''type'' = Some (JStr ''/type/datetime'')")
      case True
      from rewrite_datetime_map_of(3) [OF 2 True] obtain v where
        "map_of data2 ''value'' = Some (JStr (replace_space_T v))" by blast
      with 3 have "map_of r ''value'' = Some (JStr (replace_space_T v))"
        by (simp add: process_items_map_of_str)
      then show ?thesis using rewrite_datetime_fixed by blast
    next
      case False
      with rewrite_datetime_map_of(2) [OF 2] have "data2 = data1" by simp
      with False 3 have "map_of r ''type'' \<noteq> Some (JStr ''/type/datetime'')"
        by (simp add: process_items_map_of_str)
      then show ?thesis using rewrite_datetime_fixed by blast
    qed
    with key items r show ?thesis by simp
  qed
  then show ?case by blast
next
  case (9 d ds)
  then show ?case by (auto split: sum.splits)
next
  case (11 k v kvs)
  then show ?case by (auto split: sum.splits)
qed simp_all

text \<open>
  C8.  Normalizing the result of a normalization returns it unchanged, and where the
  first normalization raises so does the composition:
  \<open>_process_data(_process_data(d)) == _process_data(d)\<close>.  A key that begins with one
  of the long prefixes \<open>/authors/\<close>, \<open>/books/\<close>, \<open>/languages/\<close>, \<open>/people/\<close> is
  returned by the key rewrite as it is.
\<close>

theorem process_data_idempotent:
  "(case process_data d of Inl e \<Rightarrow> Inl e | Inr d' \<Rightarrow> process_data d') = process_data d \<and>
   process_key (process_key key) = process_key key \<and>
   process_key (''/authors/'' @ rest) = ''/authors/'' @ rest \<and>
   process_key (''/books/'' @ rest) = ''/books/'' @ rest \<and>
   process_key (''/languages/'' @ rest) = ''/languages/'' @ rest \<and>
   process_key (''/people/'' @ rest) = ''/people/'' @ rest"
proof -
  have "(case process_data d of Inl e \<Rightarrow> Inl e | Inr d' \<Rightarrow> process_data d') = process_data d"
    using process_data_idem_aux(1) [of d] by (cases "process_data d") simp_all
  moreover have "process_key (''/authors/'' @ rest) = ''/authors/'' @ rest"
    and "process_key (''/books/'' @ rest) = ''/books/'' @ rest"
    and "process_key (''/languages/'' @ rest) = ''/languages/'' @ rest"
    and "process_key (''/people/'' @ rest) = ''/people/'' @ rest"
    by (simp_all add: process_key_cases startswith_def)
  ultimately show ?thesis
    by (simp add: process_key_idem)
qed

theorem process_data_idempotent_witness:
  "process_data (JDict [(''key'', JStr ''/a/OL1A''),
      (''last_modified'', JDict [(''type'', JStr ''/type/datetime''),
         (''value'', JStr ''2020-01-01 00:00:00'')])]) =
     Inr (JDict [(''key'', JStr ''/authors/OL1A''),
      (''last_modified'', JDict [(''type'', JStr ''/type/datetime''),
         (''value'', JStr ''2020-01-01T00:00:00'')])]) \<and>
   process_data (JDict [(''key'', JStr ''/authors/OL1A''),
      (''last_modified'', JDict [(''type'', JStr ''/type/datetime''),
         (''value'', JStr ''2020-01-01T00:00:00'')])]) =
     Inr (JDict [(''key'', JStr ''/authors/OL1A''),
      (''last_modified'', JDict [(''type'', JStr ''/type/datetime''),
         (''value'', JStr ''2020-01-01T00:00:00'')])])"
proof -
  have 1: "process_data (JDict [(''key'', JStr ''/a/OL1A''),
      (''last_modified'', JDict [(''type'', JStr ''/type/datetime''),
         (''value'', JStr ''2020-01-01 00:00:00'')])]) =
     Inr (JDict [(''key'', JStr ''/authors/OL1A''),
      (''last_modified'', JDict [(''type'', JStr ''/type/datetime''),
         (''value'', JStr ''2020-01-01T00:00:00'')])])"
    by (simp add: rewrite_key_def rewrite_datetime_def process_key_cases startswith_def
        replace_space_T_def)
  from process_data_idempotent [of "JDict [(''key'', JStr ''/a/OL1A''),
      (''last_modified'', JDict [(''type'', JStr ''/type/datetime''),
         (''value'', JStr ''2020-01-01 00:00:00'')])]"] 1
  show ?thesis by simp
qed

section \<open>Properties of the datetime rewrite\<close>

lemma substitutions_replace_space_T:
  "substitutions v (replace_space_T v) = count_list v (CHR '' '')"
  by (induction v) (simp_all add: substitutions_def replace_space_T_def)

lemma replace_space_T_separator:
  "CHR '' '' \<notin> set date \<Longrightarrow> CHR '' '' \<notin> set time \<Longrightarrow>
   replace_space_T (date @ CHR '' '' # time) = date @ CHR ''T'' # time"
  by (auto simp add: replace_space_T_def intro!: map_idI)

lemma datetime_values_items_update_str:
  "map_of kvs k = Some (JStr s0) \<Longrightarrow>
   datetime_values_items (AList.update k (JStr s) kvs) = datetime_values_items kvs"
  by (induction kvs) (auto split: if_splits)

lemma datetime_values_items_rewrite_key:
  "rewrite_key data = Inr data1 \<Longrightarrow> datetime_values_items data1 = datetime_values_items data"
  by (auto simp add: rewrite_key_def datetime_values_items_update_str
      split: option.splits json.splits)

lemma datetime_values_items_rewrite_datetime:
  "rewrite_datetime data1 = Inr data2 \<Longrightarrow>
   datetime_values_items data2 = datetime_values_items data1"
  by (auto simp add: rewrite_datetime_def datetime_values_items_update_str
      split: option.splits json.splits if_splits)

lemma datetime_values_aux:
  "(\<forall>d'. process_data d = Inr d' \<longrightarrow>
      datetime_values d' = map replace_space_T (datetime_values d))"
  and "(\<forall>ds'. process_list ds = Inr ds' \<longrightarrow>
      datetime_values_list ds' = map replace_space_T (datetime_values_list ds))"
  and "(\<forall>kvs'. process_items kvs = Inr kvs' \<longrightarrow>
      datetime_values_items kvs' = map replace_space_T (datetime_values_items kvs))"
proof (induction d and ds and kvs rule: process_data_process_list_process_items.induct)
  case (1 ds)
  have "datetime_values d' = map replace_space_T (datetime_values (JList ds))"
    if d': "process_data (JList ds) = Inr d'" for d'
  proof -
    from d' obtain r where r: "process_list ds = Inr r" and "d' = JList r"
      by (auto split: sum.splits)
    with "1.IH" show ?thesis by simp
  qed
  then show ?case by blast
next
  case (2 data)
  have "datetime_values d' = map replace_space_T (datetime_values (JDict data))"
    if d': "process_data (JDict data) = Inr d'" for d'
  proof -
    from d' obtain data1 data2 r where
      1: "rewrite_key data = Inr data1" and 2: "rewrite_datetime data1 = Inr data2"
      and 3: "process_items data2 = Inr r" and r: "d' = JDict r"
      using process_data_JDict by blast
    from "2.IH" [OF 1 2] 3
    have "datetime_values_items r = map replace_space_T (datetime_values_items data2)"
      by blast
    with datetime_values_items_rewrite_key [OF 1] datetime_values_items_rewrite_datetime [OF 2]
    have items: "datetime_values_items r = map replace_space_T (datetime_values_items data)"
      by simp
    have type1: "map_of data1 ''type'' = map_of data ''type''"
      using rewrite_key_map_of(2) [OF 1, of "''type''"] by simp
    have value1: "map_of data1 ''value'' = map_of data ''value''"
      using rewrite_key_map_of(2) [OF 1, of "''value''"] by simp
    have type2: "map_of data2 ''type'' = map_of data1 ''type''"
      using rewrite_datetime_map_of(1) [OF 2, of "''type''"] by simp
    have typer: "(map_of r ''type'' = Some (JStr ''/type/datetime'')) =
        (map_of data ''type'' = Some (JStr ''/type/datetime''))"
      unfolding process_items_map_of_str [OF 3] type2 type1 ..
    show ?thesis
    proof (cases "map_of data ''type'' = Some (JStr ''/type/datetime'')")
      case True
      with type1 have "map_of data1 ''type'' = Some (JStr ''/type/datetime'')" by simp
      from rewrite_datetime_map_of(3) [OF 2 this] obtain v where
        v: "map_of data1 ''value'' = Some (JStr v)"
        and v2: "map_of data2 ''value'' = Some (JStr (replace_space_T v))" by blast
      from v2 have vr: "map_of r ''value'' = Some (JStr (replace_space_T v))"
        unfolding process_items_map_of_str [OF 3] .
      from v value1 have vd: "map_of data ''value'' = Some (JStr v)" by simp
      from True typer have tr: "map_of r ''type'' = Some (JStr ''/type/datetime'')" by simp
      show ?thesis
        unfolding r datetime_values.simps items by (simp only: True tr vr vd) simp
    next
      case False
      with typer have tr: "map_of r ''type'' \<noteq> Some (JStr ''/type/datetime'')" by simp
      show ?thesis
        unfolding r datetime_values.simps items by (simp only: False tr) simp
    qed
  qed
  then show ?case by blast
next
  case (9 d ds)
  have "datetime_values_list ds' = map replace_space_T (datetime_values_list (d # ds))"
    if ds': "process_list (d # ds) = Inr ds'" for ds'
  proof -
    from ds' obtain r rs where r: "process_data d = Inr r"
      and rs: "process_list ds = Inr rs" and "ds' = r # rs"
      by (auto split: sum.splits)
    with "9.IH"(1) "9.IH"(2) [OF r] show ?thesis by simp
  qed
  then show ?case by blast
next
  case (11 k v kvs)
  have "datetime_values_items kvs' =
      map replace_space_T (datetime_values_items ((k, v) # kvs))"
    if kvs': "process_items ((k, v) # kvs) = Inr kvs'" for kvs'
  proof -
    from kvs' obtain r rs where r: "process_data v = Inr r"
      and rs: "process_items kvs = Inr rs" and "kvs' = (k, r) # rs"
      by (auto split: sum.splits)
    with "11.IH"(1) "11.IH"(2) [OF r] show ?thesis by simp
  qed
  then show ?case by blast
qed simp_all

text \<open>
  C7 (as stated, refuted).  A datetime-tagged value whose text holds two spaces has both
  of them turned into \<open>T\<close>: two substitutions, where the rewrite of the separating
  space alone would leave the second space in place.
\<close>

theorem process_data_datetime_two_spaces:
  "process_data (JDict [(''type'', JStr ''/type/datetime''),
       (''value'', JStr ''2020-01-01 00:00:00 UTC'')]) =
     Inr (JDict [(''type'', JStr ''/type/datetime''),
       (''value'', JStr ''2020-01-01T00:00:00TUTC'')]) \<and>
   substitutions ''2020-01-01 00:00:00 UTC'' ''2020-01-01T00:00:00TUTC'' = 2 \<and>
   spec_separator_to_T ''2020-01-01 00:00:00 UTC'' = ''2020-01-01T00:00:00 UTC''"
  by (simp add: rewrite_key_def rewrite_datetime_def replace_space_T_def substitutions_def)

text \<open>
  C7 (amended).  When normalization returns, every datetime-tagged value of the
  document, wherever it is nested and each on its own, has had every space of its text
  turned into \<open>T\<close>: as many substitutions as the text has spaces, and exactly the
  rewrite of the separator when date and time hold no other space.
\<close>

theorem process_data_datetime_values:
  "process_data d = Inr d' \<Longrightarrow>
   datetime_values d' = map replace_space_T (datetime_values d) \<and>
   (\<forall>v \<in> set (datetime_values d).
      substitutions v (replace_space_T v) = count_list v (CHR '' '')) \<and>
   (\<forall>date time. CHR '' '' \<notin> set date \<and> CHR '' '' \<notin> set time \<longrightarrow>
      replace_space_T (date @ CHR '' '' # time) = date @ CHR ''T'' # time)"
  using datetime_values_aux(1) [of d]
  by (simp add: substitutions_replace_space_T replace_space_T_separator)

theorem process_data_datetime_values_witness:
  "datetime_values (JDict [(''key'', JStr ''/a/OL1A''),
      (''created'', JDict [(''type'', JStr ''/type/datetime''),
         (''value'', JStr ''2019-12-31 23:59:59'')]),
      (''history'', JList [JDict [(''type'', JStr ''/type/datetime''),
         (''value'', JStr ''2020-01-01 00:00:00'')]])]) =
     [''2019-12-31 23:59:59'', ''2020-01-01 00:00:00''] \<and>
   datetime_values (JDict [(''key'', JStr ''/authors/OL1A''),
      (''created'', JDict [(''type'', JStr ''/type/datetime''),
         (''value'', JStr ''2019-12-31T23:59:59'')]),
      (''history'', JList [JDict [(''type'', JStr ''/type/datetime''),
         (''value'', JStr ''2020-01-01T00:00:00'')]])]) =
     [''2019-12-31T23:59:59'', ''2020-01-01T00:00:00''] \<and>
   substitutions ''2019-12-31 23:59:59'' (replace_space_T ''2019-12-31 23:59:59'') = 1"
proof -
  have 1: "process_data (JDict [(''key'', JStr ''/a/OL1A''),
      (''created'', JDict [(''type'', JStr ''/type/datetime''),
         (''value'', JStr ''2019-12-31 23:59:59'')]),
      (''history'', JList [JDict [(''type'', JStr ''/type/datetime''),
         (''value'', JStr ''2020-01-01 00:00:00'')]])]) =
    Inr (JDict [(''key'', JStr ''/authors/OL1A''),
      (''created'', JDict [(''type'', JStr ''/type/datetime''),
         (''value'', JStr ''2019-12-31T23:59:59'')]),
      (''history'', JList [JDict [(''type'', JStr ''/type/datetime''),
         (''value'', JStr ''2020-01-01T00:00:00'')]])])"
    by (simp add: rewrite_key_def rewrite_datetime_def process_key_cases startswith_def
        replace_space_T_def)
  from process_data_datetime_values [OF 1] show ?thesis
    by (simp add: replace_space_T_def)
qed

section \<open>Properties of the full-snapshot generator\<close>

lemma startswith_split: "startswith s p \<Longrightarrow> s = p @ drop (length p) s"
  unfolding startswith_def using append_take_drop_id [of "length p" s] by simp

lemma dump_record_InrD:
  "dump_record flt j = Inr res \<Longrightarrow>
   \<exists>kvs d key type timestamp. j = JDict kvs \<and>
     process_data (JDict (AList.delete ''id'' kvs)) = Inr d \<and>
     subscript d ''key'' = Inr (JStr key) \<and>
     subscript2 d ''type'' ''key'' = Inr type \<and>
     subscript2 d ''last_modified'' ''value'' = Inr timestamp \<and>
     emit flt d key type timestamp = Inr res"
  by (cases j)
    (auto simp add: dump_record_def pop_id_def str_field_def split: sum.splits json.splits)

lemma dump_record_emit:
  "process_data (JDict (AList.delete ''id'' kvs)) = Inr d \<Longrightarrow>
   subscript d ''key'' = Inr (JStr key) \<Longrightarrow>
   subscript2 d ''type'' ''key'' = Inr type \<Longrightarrow>
   subscript2 d ''last_modified'' ''value'' = Inr timestamp \<Longrightarrow>
   dump_record flt (JDict kvs) = emit flt d key type timestamp"
  by (simp add: dump_record_def pop_id_def str_field_def)

lemma print_row_InrD:
  "print_row type key timestamp d = Inr row \<Longrightarrow>
   row_key row = key \<and> type = JStr (row_type row) \<and> timestamp = JStr (row_timestamp row) \<and>
   row_json row = d \<and> subscript d ''revision'' = Inr (row_revision row)"
  by (auto simp add: print_row_def str_field_def split: sum.splits json.splits)

lemma emit_SomeD:
  "emit flt d key type timestamp = Inr (Some row) \<Longrightarrow>
   \<not> skip_user_admin key \<and> \<not> skip_obsolete key \<and> apply_filter flt d = Inr True \<and>
   print_row type key timestamp d = Inr row"
  by (auto simp add: emit_def split: if_splits sum.splits)

lemma emit_skipped:
  "skip_user_admin key \<or> skip_obsolete key \<Longrightarrow> emit flt d key type timestamp = Inr None"
  by (auto simp add: emit_def)

text \<open>The key that the loop reads is the rewritten top-level key of the record.\<close>

lemma process_data_top_key:
  assumes "process_data (JDict (AList.delete ''id'' kvs)) = Inr d"
  shows "subscript d ''key'' = Inr (JStr key) \<longleftrightarrow>
         (\<exists>k. map_of kvs ''key'' = Some (JStr k) \<and> key = process_key k)"
proof -
  from assms obtain r where r: "d = JDict r"
    using process_data_JDict by blast
  have del: "map_of (AList.delete ''id'' kvs) ''key'' = map_of kvs ''key''"
    by (simp add: delete_conv')
  from assms r process_data_key [of "AList.delete ''id'' kvs" r] del
  have "map_of r ''key'' = None \<and> map_of kvs ''key'' = None \<or>
        (\<exists>k. map_of kvs ''key'' = Some (JStr k) \<and>
             map_of r ''key'' = Some (JStr (process_key k)))"
    by simp
  then show ?thesis
    by (auto simp add: r subscript_def)
qed

lemma print_dump_member:
  "row \<in> set (fst (print_dump records flt)) \<Longrightarrow>
   \<exists>j \<in> set records. dump_record flt j = Inr (Some row)"
proof (induction records)
  case Nil
  then show ?case by simp
next
  case (Cons j js)
  show ?case
  proof (cases "dump_record flt j")
    case (Inl e)
    with Cons.prems show ?thesis by simp
  next
    case (Inr res)
    show ?thesis
    proof (cases res)
      case None
      with Inr Cons show ?thesis by simp
    next
      case (Some r)
      with Inr Cons.prems have "row = r \<or> row \<in> set (fst (print_dump js flt))"
        by (cases "print_dump js flt") auto
      with Cons.IH Inr Some show ?thesis by auto
    qed
  qed
qed

lemma dump_record_SomeD:
  assumes "dump_record flt j = Inr (Some row)"
  shows "\<exists>kvs k. j = JDict kvs \<and> map_of kvs ''key'' = Some (JStr k) \<and>
           row_key row = process_key k \<and>
           \<not> skip_user_admin (process_key k) \<and> \<not> skip_obsolete (process_key k)"
proof -
  from dump_record_InrD [OF assms] obtain kvs d key type timestamp where
    j: "j = JDict kvs" and d: "process_data (JDict (AList.delete ''id'' kvs)) = Inr d"
    and key: "subscript d ''key'' = Inr (JStr key)"
    and emit: "emit flt d key type timestamp = Inr (Some row)"
    by blast
  from process_data_top_key [OF d, of key] key obtain k where
    k: "map_of kvs ''key'' = Some (JStr k)" "key = process_key k" by blast
  from emit_SomeD [OF emit] print_row_InrD [of type key timestamp d row]
  have "row_key row = key" "\<not> skip_user_admin key" "\<not> skip_obsolete key" by simp_all
  with j k show ?thesis by blast
qed

lemma dump_record_skipped:
  assumes "map_of kvs ''key'' = Some (JStr k)"
    and "skip_user_admin (process_key k) \<or> skip_obsolete (process_key k)"
  shows "dump_record flt (JDict kvs) \<noteq> Inr (Some row)"
proof
  assume "dump_record flt (JDict kvs) = Inr (Some row)"
  from dump_record_SomeD [OF this] assms show False by auto
qed

text \<open>The order of strs.\<close>

lemma less_append_same_prefix: "(xs @ ys < xs @ zs) = (ys < zs)" for xs :: string
  by (induction xs) simp_all

lemma less_append_equal_length:
  "length a = length b \<Longrightarrow> a < b \<Longrightarrow> a @ ys < b @ zs" for a :: string
  by (induction a b rule: list_induct2) auto

lemma not_less_append_equal_length:
  "length a = length b \<Longrightarrow> b < a \<Longrightarrow> \<not> a @ ys < b @ zs" for a :: string
  by (induction a b rule: list_induct2) auto

text \<open>A filter only vetoes: what is printed with it is printed without it.\<close>

lemma dump_record_printed_without_filter:
  assumes "dump_record flt j = Inr (Some row)"
  shows "dump_record None j = Inr (Some row)"
proof -
  from dump_record_InrD [OF assms] obtain kvs d key type timestamp where
    j: "j = JDict kvs" and d: "process_data (JDict (AList.delete ''id'' kvs)) = Inr d"
    and key: "subscript d ''key'' = Inr (JStr key)"
    and type: "subscript2 d ''type'' ''key'' = Inr type"
    and ts: "subscript2 d ''last_modified'' ''value'' = Inr timestamp"
    and emit: "emit flt d key type timestamp = Inr (Some row)"
    by blast
  from emit_SomeD [OF emit] have "emit None d key type timestamp = Inr (Some row)"
    by (simp add: emit_def apply_filter_def)
  with dump_record_emit [OF d key type ts] j show ?thesis by simp
qed

text \<open>The date filter decides on the printed timestamp alone.\<close>

lemma dump_record_cdump_filter:
  assumes "dump_record None j = Inr (Some row)"
  shows "dump_record (Some (cdump_filter date)) j =
           Inr (if row_timestamp row < date @ ''Z'' then Some row else None)"
proof -
  from dump_record_InrD [OF assms] obtain kvs d key type timestamp where
    j: "j = JDict kvs" and d: "process_data (JDict (AList.delete ''id'' kvs)) = Inr d"
    and key: "subscript d ''key'' = Inr (JStr key)"
    and type: "subscript2 d ''type'' ''key'' = Inr type"
    and ts: "subscript2 d ''last_modified'' ''value'' = Inr timestamp"
    and emit: "emit None d key type timestamp = Inr (Some row)"
    by blast
  from emit_SomeD [OF emit] have skip: "\<not> skip_user_admin key" "\<not> skip_obsolete key"
    and row: "print_row type key timestamp d = Inr row" by simp_all
  from print_row_InrD [OF row] have "timestamp = JStr (row_timestamp row)" by simp
  with ts have "cdump_filter date d = Inr (row_timestamp row < date @ ''Z'')"
    by (simp add: cdump_filter_def)
  with skip row have "emit (Some (cdump_filter date)) d key type timestamp =
      Inr (if row_timestamp row < date @ ''Z'' then Some row else None)"
    by (simp add: emit_def apply_filter_def)
  with dump_record_emit [OF d key type ts] j show ?thesis by simp
qed

lemma dump_record_skip_any_filter:
  assumes "dump_record None j = Inr None"
  shows "dump_record flt j = Inr None"
proof -
  from dump_record_InrD [OF assms] obtain kvs d key type timestamp where
    j: "j = JDict kvs" and d: "process_data (JDict (AList.delete ''id'' kvs)) = Inr d"
    and key: "subscript d ''key'' = Inr (JStr key)"
    and type: "subscript2 d ''type'' ''key'' = Inr type"
    and ts: "subscript2 d ''last_modified'' ''value'' = Inr timestamp"
    and emit: "emit None d key type timestamp = Inr None"
    by blast
  from emit have "skip_user_admin key \<or> skip_obsolete key"
    by (auto simp add: emit_def apply_filter_def split: if_splits sum.splits)
  from emit_skipped [OF this] dump_record_emit [OF d key type ts] j
  show ?thesis by simp
qed

lemma print_dump_cdump_filter:
  "print_dump records None = (rows, None) \<Longrightarrow>
   print_dump records (Some (cdump_filter date)) =
     (filter (\<lambda>row. row_timestamp row < date @ ''Z'') rows, None)"
proof (induction records arbitrary: rows)
  case Nil
  then show ?case by simp
next
  case (Cons j js)
  show ?case
  proof (cases "dump_record None j")
    case (Inl e)
    with Cons.prems show ?thesis by simp
  next
    case (Inr res)
    show ?thesis
    proof (cases res)
      case None
      with Inr have skip: "dump_record None j = Inr None" by simp
      with Cons.prems have "print_dump js None = (rows, None)" by simp
      from Cons.IH [OF this] dump_record_skip_any_filter [OF skip]
      show ?thesis by simp
    next
      case (Some row)
      with Inr have row: "dump_record None j = Inr (Some row)" by simp
      obtain out err where js: "print_dump js None = (out, err)"
        by (cases "print_dump js None")
      with row Cons.prems have rows: "rows = row # out" and "err = None" by simp_all
      with js have "print_dump js None = (out, None)" by simp
      from Cons.IH [OF this] dump_record_cdump_filter [OF row, of date] rows
      show ?thesis by simp
    qed
  qed
qed

lemma process_key_unchanged:
  "process_key ''/type/work'' = ''/type/work''"
  "process_key ''/works/OL1W'' = ''/works/OL1W''"
  "process_key ''/people/foo'' = ''/people/foo''"
  by (simp_all add: process_key_cases startswith_def)

lemma example_record_row:
  "\<not> skip_user_admin (process_key key) \<Longrightarrow> \<not> skip_obsolete (process_key key) \<Longrightarrow>
   dump_record None (example_record key modified) =
     Inr (Some (example_row (process_key key) (replace_space_T modified)))"
  by (simp add: example_record_def example_items_def example_row_def dump_record_def
      pop_id_def AList.delete_eq rewrite_key_def rewrite_datetime_def subscript_def
      subscript2_def str_field_def emit_def apply_filter_def print_row_def
      process_key_unchanged)

lemma example_works_row:
  "dump_record None (example_record ''/works/OL1W'' modified) =
     Inr (Some (example_row ''/works/OL1W'' (replace_space_T modified)))"
  using example_record_row [of "''/works/OL1W''" modified]
  by (simp add: process_key_unchanged skip_user_admin_def skip_obsolete_def startswith_def)

text \<open>
  The test for \<open>/b/\<close> is made on the rewritten key: a record stored under \<open>/b/\<close> has
  become a \<open>/books/\<close> record by then, and is printed.
\<close>

lemma example_b_record_printed:
  "dump_record None (example_record ''/b/OL1M'' modified) =
     Inr (Some (example_row ''/books/OL1M'' (replace_space_T modified)))"
proof -
  have "process_key ''/b/OL1M'' = ''/books/OL1M''"
    by (simp add: process_key_cases startswith_def)
  with example_record_row [of "''/b/OL1M''" modified] show ?thesis
    by (simp add: skip_user_admin_def skip_obsolete_def startswith_def)
qed

text \<open>
  C2 (as stated, refuted).  With the cutoff \<open>2020-05-17\<close>, the record modified at
  \<open>2020-05-17 10:00:00\<close> is printed, with the timestamp \<open>2020-05-17T10:00:00\<close>, and so
  is a record whose stored value already reads \<open>2020-05-17T10:00:00\<close>.
\<close>

theorem generate_cdump_boundary_day_printed:
  "generate_cdump [example_record ''/works/OL1W'' ''2020-05-17 10:00:00'']
       (Some ''2020-05-17'') =
     ([example_row ''/works/OL1W'' ''2020-05-17T10:00:00''], None) \<and>
   generate_cdump [example_record ''/works/OL1W'' ''2020-05-17T10:00:00'']
       (Some ''2020-05-17'') =
     ([example_row ''/works/OL1W'' ''2020-05-17T10:00:00''], None)"
proof -
  have printed: "print_dump [example_record ''/works/OL1W'' modified] None =
      ([example_row ''/works/OL1W'' (replace_space_T modified)], None)" for modified
    by (simp add: example_works_row)
  have "generate_cdump [example_record ''/works/OL1W'' modified] (Some ''2020-05-17'') =
      (filter (\<lambda>row. row_timestamp row < ''2020-05-17'' @ ''Z'')
         [example_row ''/works/OL1W'' (replace_space_T modified)], None)" for modified
    using print_dump_cdump_filter [OF printed [of modified], where date = "''2020-05-17''"]
    by (simp add: generate_cdump_def)
  from this [of "''2020-05-17 10:00:00''"] this [of "''2020-05-17T10:00:00''"]
  show ?thesis
    by (simp add: example_row_def replace_space_T_def)
qed

text \<open>
  C2 (amended).  With a cutoff date \<open>D\<close>, a record is printed exactly when it is
  printed without a cutoff and its timestamp is less than \<open>D + "Z"\<close> as a str; a run
  that ends without an exception when there is no cutoff prints, with the cutoff, those
  of its lines whose timestamp is less.  A timestamp on day \<open>D\<close> itself (\<open>D\<close>, a \<open>T\<close>,
  a time) is less, and so is one on a day strictly before \<open>D\<close>; one on a day after \<open>D\<close>
  is not.
\<close>

theorem generate_cdump_cutoff:
  "date \<noteq> [] \<Longrightarrow>
   (print_dump records None = (rows, None) \<longrightarrow>
      generate_cdump records (Some date) =
        (filter (\<lambda>row. row_timestamp row < date @ ''Z'') rows, None)) \<and>
   ((dump_record (Some (cdump_filter date)) j = Inr (Some row)) =
      (dump_record None j = Inr (Some row) \<and> row_timestamp row < date @ ''Z'')) \<and>
   date @ CHR ''T'' # time < date @ ''Z'' \<and>
   (length day = length date \<and> day < date \<longrightarrow> day @ rest < date @ ''Z'') \<and>
   (length day = length date \<and> date < day \<longrightarrow> \<not> day @ rest < date @ ''Z'')"
proof -
  assume date: "date \<noteq> []"
  have run: "print_dump records None = (rows, None) \<longrightarrow>
      generate_cdump records (Some date) =
        (filter (\<lambda>row. row_timestamp row < date @ ''Z'') rows, None)"
  proof
    assume rows: "print_dump records None = (rows, None)"
    from date print_dump_cdump_filter [OF rows, of date]
    show "generate_cdump records (Some date) =
        (filter (\<lambda>row. row_timestamp row < date @ ''Z'') rows, None)"
      by (simp add: generate_cdump_def)
  qed
  have one: "(dump_record (Some (cdump_filter date)) j = Inr (Some row)) =
      (dump_record None j = Inr (Some row) \<and> row_timestamp row < date @ ''Z'')"
  proof
    assume cut: "dump_record (Some (cdump_filter date)) j = Inr (Some row)"
    then have uncut: "dump_record None j = Inr (Some row)"
      by (rule dump_record_printed_without_filter)
    from dump_record_cdump_filter [OF uncut, of date] cut
    have "row_timestamp row < date @ ''Z''"
      by (simp split: if_splits)
    with uncut show "dump_record None j = Inr (Some row) \<and> row_timestamp row < date @ ''Z''"
      by (rule conjI)
  next
    assume both: "dump_record None j = Inr (Some row) \<and> row_timestamp row < date @ ''Z''"
    then have uncut: "dump_record None j = Inr (Some row)" by (rule conjunct1)
    from both have less: "row_timestamp row < date @ ''Z''" by (rule conjunct2)
    from dump_record_cdump_filter [OF uncut, of date] less
    show "dump_record (Some (cdump_filter date)) j = Inr (Some row)"
      by simp
  qed
  have day: "date @ CHR ''T'' # time < date @ ''Z''"
    by (simp add: less_append_same_prefix)
  have before: "length day = length date \<and> day < date \<longrightarrow> day @ rest < date @ ''Z''"
    using less_append_equal_length [of day date rest "''Z''"] by blast
  have after: "length day = length date \<and> date < day \<longrightarrow> \<not> day @ rest < date @ ''Z''"
    using not_less_append_equal_length [of day date rest "''Z''"] by blast
  from run one day before after show ?thesis
    by (intro conjI)
qed

theorem generate_cdump_cutoff_witness:
  "generate_cdump
     [example_record ''/works/OL1W'' ''2020-05-16 23:59:59'',
      example_record ''/works/OL1W'' ''2020-05-17 10:00:00'',
      example_record ''/works/OL1W'' ''2020-05-18 00:00:00'']
     (Some ''2020-05-17'') =
   ([example_row ''/works/OL1W'' ''2020-05-16T23:59:59'',
     example_row ''/works/OL1W'' ''2020-05-17T10:00:00''], None)"
proof -
  have date: "''2020-05-17'' \<noteq> []" by simp
  have rows: "print_dump
     [example_record ''/works/OL1W'' ''2020-05-16 23:59:59'',
      example_record ''/works/OL1W'' ''2020-05-17 10:00:00'',
      example_record ''/works/OL1W'' ''2020-05-18 00:00:00''] None =
   ([example_row ''/works/OL1W'' ''2020-05-16T23:59:59'',
     example_row ''/works/OL1W'' ''2020-05-17T10:00:00'',
     example_row ''/works/OL1W'' ''2020-05-18T00:00:00''], None)"
    by (simp add: example_works_row replace_space_T_def)
  from generate_cdump_cutoff [OF date, THEN conjunct1, THEN mp, OF rows] show ?thesis
    by (simp add: example_row_def)
qed

text \<open>
  C6.  Every line that \<open>print_dump\<close> prints comes from a record whose normalized key
  starts with \<open>/\<close> and with none of \<open>/people/\<close>, \<open>/admin/\<close>, \<open>/b/\<close>, \<open>/scan\<close>, \<open>/old/\<close>;
  a record whose normalized key begins with one of these prefixes, or does not start
  with \<open>/\<close>, prints no line, whatever its other fields and whatever the filter; so a
  record with key \<open>/people/foo\<close> prints no line.
\<close>

theorem print_dump_key_filter:
  "(row \<in> set (fst (print_dump records flt)) \<longrightarrow>
      (\<exists>kvs k. JDict kvs \<in> set records \<and> map_of kvs ''key'' = Some (JStr k) \<and>
         row_key row = process_key k) \<and>
      \<not> startswith (row_key row) ''/people/'' \<and>
      \<not> startswith (row_key row) ''/admin/'' \<and>
      \<not> startswith (row_key row) ''/b/'' \<and>
      \<not> startswith (row_key row) ''/scan'' \<and>
      \<not> startswith (row_key row) ''/old/'' \<and>
      startswith (row_key row) ''/'' \<and>
      row_key row \<noteq> ''/people/foo'') \<and>
   (map_of kvs ''key'' = Some (JStr k) \<and>
      (startswith (process_key k) ''/people/'' \<or> startswith (process_key k) ''/admin/'' \<or>
       startswith (process_key k) ''/b/'' \<or> startswith (process_key k) ''/scan'' \<or>
       startswith (process_key k) ''/old/'' \<or> \<not> startswith (process_key k) ''/'') \<longrightarrow>
      dump_record flt (JDict kvs) \<noteq> Inr (Some r)) \<and>
   (map_of kvs ''key'' = Some (JStr ''/people/foo'') \<longrightarrow>
      dump_record flt (JDict kvs) \<noteq> Inr (Some r))"
proof (intro conjI impI)
  assume "row \<in> set (fst (print_dump records flt))"
  then obtain j where j: "j \<in> set records" and "dump_record flt j = Inr (Some row)"
    using print_dump_member by blast
  from dump_record_SomeD [OF this(2)] obtain kvs k where
    kvs: "j = JDict kvs" "map_of kvs ''key'' = Some (JStr k)" "row_key row = process_key k"
    and skip: "\<not> skip_user_admin (row_key row)" "\<not> skip_obsolete (row_key row)"
    by auto
  from j kvs show "\<exists>kvs k. JDict kvs \<in> set records \<and> map_of kvs ''key'' = Some (JStr k) \<and>
      row_key row = process_key k"
    by blast
  from skip show "\<not> startswith (row_key row) ''/people/''"
    and "\<not> startswith (row_key row) ''/admin/''"
    and "\<not> startswith (row_key row) ''/b/''"
    and "\<not> startswith (row_key row) ''/scan''"
    and "\<not> startswith (row_key row) ''/old/''"
    and "startswith (row_key row) ''/''"
    by (simp_all add: skip_user_admin_def skip_obsolete_def)
  from skip show "row_key row \<noteq> ''/people/foo''"
    by (auto simp add: skip_user_admin_def startswith_def)
next
  assume "map_of kvs ''key'' = Some (JStr k) \<and>
      (startswith (process_key k) ''/people/'' \<or> startswith (process_key k) ''/admin/'' \<or>
       startswith (process_key k) ''/b/'' \<or> startswith (process_key k) ''/scan'' \<or>
       startswith (process_key k) ''/old/'' \<or> \<not> startswith (process_key k) ''/'')"
  then have "map_of kvs ''key'' = Some (JStr k)"
    and "skip_user_admin (process_key k) \<or> skip_obsolete (process_key k)"
    by (auto simp add: skip_user_admin_def skip_obsolete_def)
  then show "dump_record flt (JDict kvs) \<noteq> Inr (Some r)"
    by (rule dump_record_skipped)
next
  assume "map_of kvs ''key'' = Some (JStr ''/people/foo'')"
  moreover have "skip_user_admin (process_key ''/people/foo'') \<or>
      skip_obsolete (process_key ''/people/foo'')"
    by (simp add: process_key_unchanged skip_user_admin_def startswith_def)
  ultimately show "dump_record flt (JDict kvs) \<noteq> Inr (Some r)"
    by (rule dump_record_skipped)
qed

theorem print_dump_key_filter_witness:
  "print_dump [example_record ''/people/foo'' ''2020-01-01 00:00:00'',
       example_record ''/works/OL1W'' ''2020-01-01 00:00:00''] None =
     ([example_row ''/works/OL1W'' ''2020-01-01T00:00:00''], None) \<and>
   startswith (row_key (example_row ''/works/OL1W'' ''2020-01-01T00:00:00'')) ''/'' \<and>
   dump_record None (example_record ''/people/foo'' ''2020-01-01 00:00:00'') = Inr None"
proof -
  have people: "dump_record None (example_record ''/people/foo'' ''2020-01-01 00:00:00'') =
      Inr None"
    by (simp add: example_record_def example_items_def dump_record_def
      pop_id_def AList.delete_eq rewrite_key_def rewrite_datetime_def subscript_def
      subscript2_def str_field_def emit_def skip_user_admin_def startswith_def
      process_key_unchanged replace_space_T_def)
  have works: "dump_record None (example_record ''/works/OL1W'' ''2020-01-01 00:00:00'') =
      Inr (Some (example_row ''/works/OL1W'' ''2020-01-01T00:00:00''))"
    by (simp add: example_works_row replace_space_T_def)
  from people works
  have out: "print_dump [example_record ''/people/foo'' ''2020-01-01 00:00:00'',
       example_record ''/works/OL1W'' ''2020-01-01 00:00:00''] None =
     ([example_row ''/works/OL1W'' ''2020-01-01T00:00:00''], None)"
    by simp
  from print_dump_key_filter [of "example_row ''/works/OL1W'' ''2020-01-01T00:00:00''"
      "[example_record ''/people/foo'' ''2020-01-01 00:00:00'',
        example_record ''/works/OL1W'' ''2020-01-01 00:00:00'']" None
      "example_items ''/people/foo'' ''2020-01-01 00:00:00''" "''/people/foo''"
      "example_row ''/works/OL1W'' ''2020-01-01T00:00:00''"] out
  have "startswith (row_key (example_row ''/works/OL1W'' ''2020-01-01T00:00:00'')) ''/''"
    by simp
  with out people show ?thesis by simp
qed

text \<open>
  C10.  A record whose key begins with \<open>/user/\<close> prints no line: the key rewrite turns
  the prefix into \<open>/people/\<close>, which the first test of the loop skips, although neither
  test names \<open>/user/\<close>.  Every printed line comes from a record whose key does not
  begin with \<open>/user/\<close>.
\<close>

theorem user_records_not_dumped:
  "(map_of kvs ''key'' = Some (JStr (''/user/'' @ rest)) \<longrightarrow>
      dump_record flt (JDict kvs) \<noteq> Inr (Some r) \<and>
      fst (print_dump [JDict kvs] flt) = []) \<and>
   process_key (''/user/'' @ rest) = ''/people/'' @ rest \<and>
   skip_user_admin (''/people/'' @ rest) \<and>
   \<not> skip_user_admin (''/user/'' @ rest) \<and>
   \<not> skip_obsolete (''/user/'' @ rest) \<and>
   (row \<in> set (fst (print_dump records flt)) \<longrightarrow>
      (\<exists>items k. JDict items \<in> set records \<and> map_of items ''key'' = Some (JStr k) \<and>
         dump_record flt (JDict items) = Inr (Some row) \<and> \<not> startswith k ''/user/''))"
proof -
  have rewrite: "process_key (''/user/'' @ x) = ''/people/'' @ x" for x
    by (simp add: process_key_cases startswith_def)
  have skipped: "skip_user_admin (''/people/'' @ x)" for x
    by (simp add: skip_user_admin_def startswith_def)
  have not_named: "\<not> skip_user_admin (''/user/'' @ rest)" "\<not> skip_obsolete (''/user/'' @ rest)"
    by (simp_all add: skip_user_admin_def skip_obsolete_def startswith_def)
  have no_row: "dump_record flt (JDict items) \<noteq> Inr (Some x)"
    if key: "map_of items ''key'' = Some (JStr k)" and user: "startswith k ''/user/''"
    for items k x
  proof -
    from startswith_split [OF user]
    have "k = ''/user/'' @ drop (length ''/user/'') k" .
    then have "process_key k = ''/people/'' @ drop (length ''/user/'') k"
      using rewrite [of "drop (length ''/user/'') k"] by simp
    with skipped [of "drop (length ''/user/'') k"]
    have "skip_user_admin (process_key k)" by simp
    then have "skip_user_admin (process_key k) \<or> skip_obsolete (process_key k)" ..
    with key show ?thesis by (rule dump_record_skipped)
  qed
  have single: "fst (print_dump [JDict kvs] flt) = []"
    if "map_of kvs ''key'' = Some (JStr (''/user/'' @ rest))"
  proof -
    have "startswith (''/user/'' @ rest) ''/user/''" by (simp add: startswith_def)
    from no_row [OF that this] show ?thesis
      by (cases "dump_record flt (JDict kvs)") (auto split: option.splits)
  qed
  have stream: "\<exists>items k. JDict items \<in> set records \<and>
      map_of items ''key'' = Some (JStr k) \<and>
      dump_record flt (JDict items) = Inr (Some row) \<and> \<not> startswith k ''/user/''"
    if "row \<in> set (fst (print_dump records flt))"
  proof -
    from that obtain j where j: "j \<in> set records" "dump_record flt j = Inr (Some row)"
      using print_dump_member by blast
    from dump_record_SomeD [OF j(2)] obtain items k where
      items: "j = JDict items" "map_of items ''key'' = Some (JStr k)" by blast
    with j no_row [of items k row] show ?thesis by blast
  qed
  have user: "startswith (''/user/'' @ rest) ''/user/''" by (simp add: startswith_def)
  have first: "map_of kvs ''key'' = Some (JStr (''/user/'' @ rest)) \<longrightarrow>
      dump_record flt (JDict kvs) \<noteq> Inr (Some r) \<and> fst (print_dump [JDict kvs] flt) = []"
    using no_row [OF _ user] single by blast
  have last: "row \<in> set (fst (print_dump records flt)) \<longrightarrow>
      (\<exists>items k. JDict items \<in> set records \<and> map_of items ''key'' = Some (JStr k) \<and>
         dump_record flt (JDict items) = Inr (Some row) \<and> \<not> startswith k ''/user/'')"
    using stream by blast
  from first rewrite [of rest] skipped [of rest] not_named last show ?thesis
    by (intro conjI)
qed

theorem user_records_not_dumped_witness:
  "dump_record None (example_record ''/user/foo'' ''2020-01-01 00:00:00'') = Inr None \<and>
   fst (print_dump [example_record ''/user/foo'' ''2020-01-01 00:00:00''] None) = [] \<and>
   process_key ''/user/foo'' = ''/people/foo''"
proof -
  have "map_of (example_items ''/user/foo'' ''2020-01-01 00:00:00'') ''key'' =
      Some (JStr (''/user/'' @ ''foo''))"
    by (simp add: example_items_def)
  with user_records_not_dumped [of "example_items ''/user/foo'' ''2020-01-01 00:00:00''"
      "''foo''" None _ _ "[]"]
  have "fst (print_dump [example_record ''/user/foo'' ''2020-01-01 00:00:00''] None) = []"
    and "process_key ''/user/foo'' = ''/people/foo''"
    by (simp_all add: example_record_def)
  moreover
  have "dump_record None (example_record ''/user/foo'' ''2020-01-01 00:00:00'') = Inr None"
    by (simp add: example_record_def example_items_def dump_record_def
      pop_id_def AList.delete_eq rewrite_key_def rewrite_datetime_def subscript_def
      subscript2_def str_field_def emit_def skip_user_admin_def startswith_def
      process_key_cases process_key_unchanged replace_space_T_def)
  ultimately show ?thesis by simp
qed

section \<open>Properties of lines and fields\<close>

lemma split_tab_not_Nil: "split_tab line \<noteq> []"
  by (cases line) (simp_all split: list.split)

lemma tjoin_split_tab: "tjoin (split_tab line) = line"
proof (induction line)
  case Nil
  show ?case by simp
next
  case (Cons c cs)
  obtain f fs where fs: "split_tab cs = f # fs"
    using split_tab_not_Nil [of cs] by (cases "split_tab cs") auto
  from Cons.IH have join: "tjoin (f # fs) = cs"
    unfolding fs .
  show ?case
  proof (cases "c = TAB")
    case True
    with fs have "split_tab (c # cs) = [] # f # fs" by simp
    then have "tjoin (split_tab (c # cs)) = TAB # tjoin (f # fs)" by simp
    with join True show ?thesis by simp
  next
    case False
    with fs have "split_tab (c # cs) = (c # f) # fs" by simp
    moreover have "tjoin ((c # f) # fs) = c # tjoin (f # fs)"
      by (cases fs) simp_all
    ultimately have "tjoin (split_tab (c # cs)) = c # tjoin (f # fs)" by simp
    with join show ?thesis by simp
  qed
qed

lemma split_tab_plain:
  "TAB \<notin> set s \<Longrightarrow> split_tab (s @ t) = (s @ hd (split_tab t)) # tl (split_tab t)"
  using split_tab_not_Nil [of t]
  by (induction s) (auto split: list.splits)

lemma split_tab_example_line:
  "TAB \<notin> set key \<Longrightarrow> TAB \<notin> set rev_text \<Longrightarrow> TAB \<notin> set payload \<Longrightarrow>
   split_tab (example_line key rev_text payload) =
     [''/type/work'', key, rev_text, ''2020-01-01T00:00:00'', payload @ [NL]]"
proof -
  note plain = split_tab_plain
  have last: "split_tab (s @ [NL]) = [s @ [NL]]" if "TAB \<notin> set s" for s
    using plain [OF that, of "[NL]"] by (simp add: NL_def TAB_def)
  assume "TAB \<notin> set key" and "TAB \<notin> set rev_text" and "TAB \<notin> set payload"
  then show ?thesis
    using plain [of "''/type/work''"] plain [of key] plain [of rev_text]
      plain [of "''2020-01-01T00:00:00''"] last [of payload]
    by (simp add: example_line_def TAB_def)
qed

section \<open>Properties of the external merge sort\<close>

lemma split_lines_buckets:
  "\<forall>line \<in> set stdin. length (line_fields line) = 5 \<Longrightarrow> length fs = 256 \<Longrightarrow>
   split_lines h stdin fs =
     (map (\<lambda>i. fs ! i @ filter (\<lambda>line. findex h line = i) stdin) [0..<256], None)"
proof (induction stdin arbitrary: fs)
  case Nil
  from Nil.prems(2) map_nth [of fs] have "map ((!) fs) [0..<256] = fs" by simp
  then show ?case by simp
next
  case (Cons line stdin)
  let ?fs = "fs[findex h line := fs ! findex h line @ [line]]"
  have idx: "findex h line < 256"
    by (simp add: findex_def)
  from Cons.prems have "split_lines h (line # stdin) fs = split_lines h stdin ?fs"
    by simp
  also from Cons.prems have "\<dots> =
      (map (\<lambda>i. ?fs ! i @ filter (\<lambda>line. findex h line = i) stdin) [0..<256], None)"
    by (intro Cons.IH) simp_all
  also have "map (\<lambda>i. ?fs ! i @ filter (\<lambda>line. findex h line = i) stdin) [0..<256] =
      map (\<lambda>i. fs ! i @ filter (\<lambda>l. findex h l = i) (line # stdin)) [0..<256]"
    using Cons.prems(2) idx by (auto simp add: nth_list_update)
  finally show ?case .
qed

lemma mset_concat_buckets:
  "mset (concat (map (\<lambda>i. filter (\<lambda>x. f x = i) xs) [0..<n])) = mset (filter (\<lambda>x. f x < n) xs)"
proof (induction n)
  case 0
  show ?case by simp
next
  case (Suc n)
  have "mset (filter (\<lambda>x. f x < Suc n) xs) =
      mset (filter (\<lambda>x. f x < n) xs) + mset (filter (\<lambda>x. f x = n) xs)"
    by (induction xs) (auto simp add: less_Suc_eq)
  with Suc show ?case by simp
qed

lemma sort_files_first_failure:
  "i < length fnames \<Longrightarrow> system (sort_command (fnames ! i) buffer_size) \<noteq> 0 \<Longrightarrow>
   \<forall>j<i. system (sort_command (fnames ! j) buffer_size) = 0 \<Longrightarrow>
   sort_files system buffer_size fnames =
     (map (\<lambda>fname. sort_command fname buffer_size) (take (Suc i) fnames),
      Some (SortFailed (system (sort_command (fnames ! i) buffer_size))))"
proof (induction fnames arbitrary: i)
  case Nil
  then show ?case by simp
next
  case (Cons fname fnames)
  show ?case
  proof (cases i)
    case 0
    with Cons.prems show ?thesis by simp
  next
    case (Suc k)
    with Cons.prems have first: "system (sort_command fname buffer_size) = 0" by auto
    from Suc Cons.prems have "k < length fnames"
      and "system (sort_command (fnames ! k) buffer_size) \<noteq> 0"
      and "\<forall>j<k. system (sort_command (fnames ! j) buffer_size) = 0"
      by auto
    from Cons.IH [OF this] first Suc show ?thesis by simp
  qed
qed

lemma sort_files_all_zero:
  "\<forall>fname \<in> set fnames. system (sort_command fname buffer_size) = 0 \<Longrightarrow>
   sort_files system buffer_size fnames =
     (map (\<lambda>fname. sort_command fname buffer_size) fnames, None)"
  by (induction fnames) simp_all

lemma sort_files_raised:
  "sort_files system buffer_size fnames = (run, Some e) \<Longrightarrow>
   \<exists>i<length fnames. system (sort_command (fnames ! i) buffer_size) \<noteq> 0 \<and>
     (\<forall>j<i. system (sort_command (fnames ! j) buffer_size) = 0)"
proof (induction fnames arbitrary: run)
  case Nil
  then show ?case by simp
next
  case (Cons fname fnames)
  show ?case
  proof (cases "system (sort_command fname buffer_size) = 0")
    case False
    then have "0 < length (fname # fnames) \<and>
        system (sort_command ((fname # fnames) ! 0) buffer_size) \<noteq> 0 \<and>
        (\<forall>j<0. system (sort_command ((fname # fnames) ! j) buffer_size) = 0)"
      by simp
    then show ?thesis by blast
  next
    case True
    with Cons.prems obtain run' where "sort_files system buffer_size fnames = (run', Some e)"
      by (cases "sort_files system buffer_size fnames") auto
    from Cons.IH [OF this] obtain i where i: "i < length fnames"
      "system (sort_command (fnames ! i) buffer_size) \<noteq> 0"
      "\<forall>j<i. system (sort_command (fnames ! j) buffer_size) = 0" by blast
    have "\<forall>j<Suc i. system (sort_command ((fname # fnames) ! j) buffer_size) = 0"
    proof (intro allI impI)
      fix j assume "j < Suc i"
      with True i(3) show "system (sort_command ((fname # fnames) ! j) buffer_size) = 0"
        by (cases j) simp_all
    qed
    with i have "Suc i < length (fname # fnames) \<and>
        system (sort_command ((fname # fnames) ! Suc i) buffer_size) \<noteq> 0 \<and>
        (\<forall>j<Suc i. system (sort_command ((fname # fnames) ! j) buffer_size) = 0)"
      by simp
    then show ?thesis by blast
  qed
qed

text \<open>
  C5.  When every line has five fields, the splitting loop of \<open>sort_dump\<close> ends
  without an exception, and each of the 256 files holds, in their order, exactly the
  lines whose key hashes to its number: every line is in the file with the number
  \<open>hash(key) % 256\<close> and in no other, the lines of all the files together are the
  lines of the input, each as often as it was read, and so are their (key, revision)
  pairs; two lines with the same key are in the same file.  These are the files that
  \<open>sort_dump\<close> leaves, whatever the sorting loop does afterwards.
\<close>

theorem split_lines_partition:
  "\<forall>line \<in> set stdin. length (line_fields line) = 5 \<Longrightarrow>
   \<exists>fs. split_lines h stdin (replicate 256 []) = (fs, None) \<and>
     length fs = 256 \<and>
     (\<forall>i<256. fs ! i = filter (\<lambda>line. findex h line = i) stdin) \<and>
     (\<forall>line \<in> set stdin. \<forall>i<256. (line \<in> set (fs ! i)) = (i = findex h line)) \<and>
     mset (concat fs) = mset stdin \<and>
     mset (map (\<lambda>line. (line_fields line ! 1, line_fields line ! 2)) (concat fs)) =
       mset (map (\<lambda>line. (line_fields line ! 1, line_fields line ! 2)) stdin) \<and>
     (\<forall>line \<in> set stdin. \<forall>other \<in> set stdin.
        line_fields line ! 1 = line_fields other ! 1 \<longrightarrow> findex h line = findex h other) \<and>
     files (sort_dump h system stdin tmpdir buffer_size) = fs"
proof -
  assume fields: "\<forall>line \<in> set stdin. length (line_fields line) = 5"
  let ?fs = "map (\<lambda>i. filter (\<lambda>line. findex h line = i) stdin) [0..<256]"
  have "split_lines h stdin (replicate 256 []) =
      (map (\<lambda>i. replicate 256 [] ! i @ filter (\<lambda>line. findex h line = i) stdin) [0..<256],
       None)"
    using fields by (intro split_lines_buckets) simp_all
  also have "map (\<lambda>i. replicate 256 [] ! i @ filter (\<lambda>line. findex h line = i) stdin)
      [0..<256] = ?fs"
    by (rule map_cong) simp_all
  finally have run: "split_lines h stdin (replicate 256 []) = (?fs, None)" .
  have len: "length ?fs = 256" by simp
  have nth: "\<forall>i<256. ?fs ! i = filter (\<lambda>line. findex h line = i) stdin"
    by simp
  have idx: "findex h line < 256" for line
    by (simp add: findex_def)
  have one: "\<forall>line \<in> set stdin. \<forall>i<256. (line \<in> set (?fs ! i)) = (i = findex h line)"
    by auto
  have "mset (concat ?fs) = mset (filter (\<lambda>line. findex h line < 256) stdin)"
    by (rule mset_concat_buckets)
  with idx have all: "mset (concat ?fs) = mset stdin" by simp
  then have pairs:
    "mset (map (\<lambda>line. (line_fields line ! 1, line_fields line ! 2)) (concat ?fs)) =
     mset (map (\<lambda>line. (line_fields line ! 1, line_fields line ! 2)) stdin)"
    by (simp only: mset_map)
  have same: "\<forall>line \<in> set stdin. \<forall>other \<in> set stdin.
      line_fields line ! 1 = line_fields other ! 1 \<longrightarrow> findex h line = findex h other"
    by (simp add: findex_def)
  from run have left: "files (sort_dump h system stdin tmpdir buffer_size) = ?fs"
    by (simp add: sort_dump_def split: prod.splits)
  from run len nth one all pairs same left show ?thesis
    by (intro exI [where x = ?fs] conjI)
qed

theorem split_lines_partition_witness:
  "\<exists>fs. split_lines (\<lambda>key. - int (length key))
       [example_line ''/works/OL1W'' ''1'' ''{}'', example_line ''/authors/OL1A'' ''1'' ''{}'',
        example_line ''/works/OL1W'' ''2'' ''{}''] (replicate 256 []) = (fs, None) \<and>
     fs ! 245 =
       [example_line ''/works/OL1W'' ''1'' ''{}'', example_line ''/works/OL1W'' ''2'' ''{}''] \<and>
     fs ! 243 = [example_line ''/authors/OL1A'' ''1'' ''{}''] \<and>
     fs ! 0 = []"
proof -
  let ?h = "\<lambda>key. - int (length key)"
  let ?stdin = "[example_line ''/works/OL1W'' ''1'' ''{}'',
      example_line ''/authors/OL1A'' ''1'' ''{}'', example_line ''/works/OL1W'' ''2'' ''{}'']"
  have strip: "strip (example_line key rev_text ''{}'') =
      tjoin [''/type/work'', key, rev_text, ''2020-01-01T00:00:00'', ''{}'']"
    for key rev_text
    by (simp add: example_line_def strip_def is_space_def NL_def TAB_def CR_def)
  have split: "TAB \<notin> set key \<Longrightarrow> TAB \<notin> set rev_text \<Longrightarrow>
      split_tab (tjoin [''/type/work'', key, rev_text, ''2020-01-01T00:00:00'', ''{}'']) =
      [''/type/work'', key, rev_text, ''2020-01-01T00:00:00'', ''{}'']" for key rev_text
  proof -
    note plain = split_tab_plain
    assume "TAB \<notin> set key" and "TAB \<notin> set rev_text"
    then show ?thesis
      using plain [of "''/type/work''"] plain [of key] plain [of rev_text]
        plain [of "''2020-01-01T00:00:00''"]
      by (simp add: TAB_def)
  qed
  have fields:
    "line_fields (example_line ''/works/OL1W'' ''1'' ''{}'') =
       [''/type/work'', ''/works/OL1W'', ''1'', ''2020-01-01T00:00:00'', ''{}'']"
    "line_fields (example_line ''/authors/OL1A'' ''1'' ''{}'') =
       [''/type/work'', ''/authors/OL1A'', ''1'', ''2020-01-01T00:00:00'', ''{}'']"
    "line_fields (example_line ''/works/OL1W'' ''2'' ''{}'') =
       [''/type/work'', ''/works/OL1W'', ''2'', ''2020-01-01T00:00:00'', ''{}'']"
    unfolding line_fields_def strip by (simp_all add: split TAB_def)
  have five: "\<forall>line \<in> set ?stdin. length (line_fields line) = 5"
    by (simp add: fields)
  have idx: "findex ?h (example_line ''/works/OL1W'' ''1'' ''{}'') = 245"
    "findex ?h (example_line ''/authors/OL1A'' ''1'' ''{}'') = 243"
    "findex ?h (example_line ''/works/OL1W'' ''2'' ''{}'') = 245"
    by (simp_all add: findex_def fields)
  from split_lines_partition [OF five, of ?h] obtain fs where
    run: "split_lines ?h ?stdin (replicate 256 []) = (fs, None)"
    and nth: "\<forall>i<256. fs ! i = filter (\<lambda>line. findex ?h line = i) ?stdin"
    by blast
  from nth have "fs ! 245 = filter (\<lambda>line. findex ?h line = 245) ?stdin"
    and "fs ! 243 = filter (\<lambda>line. findex ?h line = 243) ?stdin"
    and "fs ! 0 = filter (\<lambda>line. findex ?h line = 0) ?stdin"
    by simp_all
  then have "fs ! 245 =
       [example_line ''/works/OL1W'' ''1'' ''{}'', example_line ''/works/OL1W'' ''2'' ''{}'']"
    and "fs ! 243 = [example_line ''/authors/OL1A'' ''1'' ''{}'']"
    and "fs ! 0 = []"
    by (simp_all add: idx)
  with run show ?thesis
    by (intro exI [where x = fs] conjI)
qed

lemma sort_files_None_iff:
  "(snd (sort_files system buffer_size fnames) = None) =
   (\<forall>fname \<in> set fnames. system (sort_command fname buffer_size) = 0)"
proof (induction fnames)
  case Nil
  show ?case by simp
next
  case (Cons fname fnames)
  obtain run err where run: "sort_files system buffer_size fnames = (run, err)"
    by (cases "sort_files system buffer_size fnames")
  with Cons show ?case by (simp add: Let_def)
qed

text \<open>
  C9.  In the sorting loop, the first file whose sort returns a status other than zero
  ends the run: the exception carries that status, and the commands run are those of
  the files up to and including that one, none after it.  The loop ends without an
  exception only when the sort of every file has returned zero.  \<open>sort_dump\<close> ends as
  its sorting loop does.
\<close>

theorem sort_files_failure_aborts:
  "(i < length fnames \<and> system (sort_command (fnames ! i) buffer_size) \<noteq> 0 \<and>
      (\<forall>j<i. system (sort_command (fnames ! j) buffer_size) = 0) \<longrightarrow>
      sort_files system buffer_size fnames =
        (map (\<lambda>fname. sort_command fname buffer_size) (take (Suc i) fnames),
         Some (SortFailed (system (sort_command (fnames ! i) buffer_size))))) \<and>
   ((snd (sort_files system buffer_size fnames) = None) =
      (\<forall>fname \<in> set fnames. system (sort_command fname buffer_size) = 0)) \<and>
   (split_lines h stdin (replicate 256 []) = (fs, None) \<longrightarrow>
      commands (sort_dump h system stdin tmpdir buffer_size) =
        fst (sort_files system buffer_size (filenames tmpdir)) \<and>
      raised (sort_dump h system stdin tmpdir buffer_size) =
        snd (sort_files system buffer_size (filenames tmpdir)))"
proof (intro conjI impI)
  assume "i < length fnames \<and> system (sort_command (fnames ! i) buffer_size) \<noteq> 0 \<and>
      (\<forall>j<i. system (sort_command (fnames ! j) buffer_size) = 0)"
  then show "sort_files system buffer_size fnames =
        (map (\<lambda>fname. sort_command fname buffer_size) (take (Suc i) fnames),
         Some (SortFailed (system (sort_command (fnames ! i) buffer_size))))"
    using sort_files_first_failure [of i fnames system buffer_size] by blast
next
  show "(snd (sort_files system buffer_size fnames) = None) =
      (\<forall>fname \<in> set fnames. system (sort_command fname buffer_size) = 0)"
    by (rule sort_files_None_iff)
next
  assume "split_lines h stdin (replicate 256 []) = (fs, None)"
  then show "commands (sort_dump h system stdin tmpdir buffer_size) =
        fst (sort_files system buffer_size (filenames tmpdir))"
    and "raised (sort_dump h system stdin tmpdir buffer_size) =
        snd (sort_files system buffer_size (filenames tmpdir))"
    by (simp_all add: sort_dump_def split: prod.splits)
qed

theorem sort_files_failure_aborts_witness:
  "sort_files
     (\<lambda>cmd. if cmd = sort_command ''/tmp/oldumpsort/01.txt.gz'' ''1G'' then 512 else 0)
     ''1G''
     [''/tmp/oldumpsort/00.txt.gz'', ''/tmp/oldumpsort/01.txt.gz'',
      ''/tmp/oldumpsort/02.txt.gz''] =
   ([''gzip -cd /tmp/oldumpsort/00.txt.gz | sort -S1G -k2,3'',
     ''gzip -cd /tmp/oldumpsort/01.txt.gz | sort -S1G -k2,3''],
    Some (SortFailed 512))"
proof -
  let ?system = "\<lambda>cmd. if cmd = sort_command ''/tmp/oldumpsort/01.txt.gz'' ''1G''
      then 512 else (0::int)"
  let ?fnames = "[''/tmp/oldumpsort/00.txt.gz'', ''/tmp/oldumpsort/01.txt.gz'',
      ''/tmp/oldumpsort/02.txt.gz'']"
  have "1 < length ?fnames \<and> ?system (sort_command (?fnames ! 1) ''1G'') \<noteq> 0 \<and>
      (\<forall>j<1. ?system (sort_command (?fnames ! j) ''1G'') = 0)"
    by (simp add: sort_command_def)
  with sort_files_failure_aborts [of 1 ?fnames ?system "''1G''"]
  have "sort_files ?system ''1G'' ?fnames =
      (map (\<lambda>fname. sort_command fname ''1G'') (take (Suc 1) ?fnames),
       Some (SortFailed (?system (sort_command (?fnames ! 1) ''1G''))))"
    by (rule conjunct1 [THEN mp])
  then show ?thesis
    by (simp add: sort_command_def)
qed

lemma filenames_example:
  "filenames ''/tmp/'' ! 0 = ''/tmp/oldumpsort/00.txt.gz'' \<and>
   filenames ''/tmp/'' ! 171 = ''/tmp/oldumpsort/ab.txt.gz'' \<and>
   filenames ''/tmp/'' ! 255 = ''/tmp/oldumpsort/ff.txt.gz'' \<and>
   length (filenames tmpdir) = 256"
  by (simp add: filenames_def path_join_def startswith_def hex02_def hex_digit_def)

section \<open>Properties of the revision collapse\<close>

text \<open>
  \<open>int\<close> at the edges of what it reads: whitespace and a sign around the digits, an
  underscore between digits, but no separator \<open>0x1C\<close> to \<open>0x1F\<close>, no doubled or trailing
  underscore, no space after the sign, and no more than 4300 digits.
\<close>

lemma py_int_examples:
  "py_int '' 12'' = Inr 12"
  "py_int (''-7'' @ [NL]) = Inr (- 7)"
  "py_int ''+1_000'' = Inr 1000"
  "py_int ''007'' = Inr 7"
  "py_int [CHR 0x1C, CHR ''8'', CHR 0x1F] = Inl ValueError"
  "py_int [CHR ''8'', CHR 0x1D] = Inl ValueError"
  "py_int ''1__0'' = Inl ValueError"
  "py_int ''1_'' = Inl ValueError"
  "py_int ''- 1'' = Inl ValueError"
  "py_int [] = Inl ValueError"
  by (simp_all add: py_int_def strip_def is_space_def TAB_def NL_def CR_def
      parse_decimal_def int_max_str_digits_def is_digit_def digit_value_def)

lemma py_int_digit_limit:
  "int_max_str_digits < n \<Longrightarrow> py_int (replicate n (CHR ''1'')) = Inl ValueError"
proof -
  assume n: "int_max_str_digits < n"
  have digit: "is_digit (CHR ''1'')" and space: "\<not> is_space (CHR ''1'')"
    by (simp_all add: is_digit_def is_space_def TAB_def NL_def CR_def)
  from space have strip: "strip (replicate n (CHR ''1'')) = replicate n (CHR ''1'')"
    by (simp add: strip_def dropWhile_replicate)
  from n have pos: "n \<noteq> 0" by simp
  from digit n have "parse_decimal (replicate n (CHR ''1'')) = None"
    by (simp add: parse_decimal_def)
  with pos show ?thesis
    by (simp add: py_int_def strip Let_def hd_replicate)
qed

lemma row_ok_revision: "row_ok cols \<Longrightarrow> revision cols = Inr (revision_value cols)"
  by (simp add: row_ok_def revision_value_def split: sum.splits)

lemma row_ok_key_of: "row_ok cols \<Longrightarrow> key_of cols = Inr (cols ! 1)"
  by (auto simp add: row_ok_def revision_def key_of_def split: sum.splits if_splits)

lemma max_rows_ok:
  assumes "\<forall>row \<in> set data. row_ok row" and "revision_value best = best_rev"
  shows "\<exists>row. max_rows key best best_rev data =
             Inr (row, dropWhile (\<lambda>cols. cols ! 1 = key) data) \<and>
           row \<in> set (best # takeWhile (\<lambda>cols. cols ! 1 = key) data) \<and>
           (\<forall>other \<in> set (best # takeWhile (\<lambda>cols. cols ! 1 = key) data).
              revision_value other \<le> revision_value row)"
  using assms
proof (induction data arbitrary: best best_rev)
  case Nil
  then show ?case by simp
next
  case (Cons r data)
  from Cons.prems have ok: "\<forall>row \<in> set data. row_ok row" and r: "row_ok r" by simp_all
  note key = row_ok_key_of [OF r] and rev = row_ok_revision [OF r]
  show ?case
  proof (cases "r ! 1 = key")
    case False
    with key show ?thesis by simp
  next
    case same: True
    show ?thesis
    proof (cases "best_rev < revision_value r")
      case True
      from Cons.IH [OF ok, of r "revision_value r"] obtain row where
        row: "max_rows key r (revision_value r) data =
            Inr (row, dropWhile (\<lambda>cols. cols ! 1 = key) data)"
        "row \<in> set (r # takeWhile (\<lambda>cols. cols ! 1 = key) data)"
        "\<forall>other \<in> set (r # takeWhile (\<lambda>cols. cols ! 1 = key) data).
            revision_value other \<le> revision_value row"
        by auto
      from row(3) True Cons.prems(2) have "revision_value best \<le> revision_value row"
        by auto
      with row same key rev True show ?thesis by auto
    next
      case False
      from Cons.IH [OF ok Cons.prems(2)] obtain row where
        row: "max_rows key best best_rev data =
            Inr (row, dropWhile (\<lambda>cols. cols ! 1 = key) data)"
        "row \<in> set (best # takeWhile (\<lambda>cols. cols ! 1 = key) data)"
        "\<forall>other \<in> set (best # takeWhile (\<lambda>cols. cols ! 1 = key) data).
            revision_value other \<le> revision_value row"
        by auto
      from row(3) False Cons.prems(2) have "revision_value r \<le> revision_value row"
        by auto
      with row same key rev False show ?thesis by auto
    qed
  qed
qed

lemma process_collapse:
  "\<forall>row \<in> set data. row_ok row \<Longrightarrow> key_grouped data \<Longrightarrow>
   \<exists>out. process data = (out, None) \<and>
     map (\<lambda>cols. cols ! 1) out = remdups_adj (map (\<lambda>cols. cols ! 1) data) \<and>
     (\<forall>row \<in> set out. row \<in> set data \<and>
        (\<forall>other \<in> set data. other ! 1 = row ! 1 \<longrightarrow>
           revision_value other \<le> revision_value row))"
proof (induction data rule: length_induct)
  case (1 data)
  show ?case
  proof (cases data)
    case Nil
    then show ?thesis by simp
  next
    case (Cons r rest0)
    let ?key = "r ! 1"
    let ?P = "\<lambda>cols. cols ! 1 = ?key"
    let ?rest = "dropWhile ?P rest0"
    let ?group = "r # takeWhile ?P rest0"
    from 1(2) Cons have r: "row_ok r" and ok0: "\<forall>row \<in> set rest0. row_ok row" by simp_all
    from max_rows_ok [OF ok0, of r "revision_value r" ?key] obtain best where
      best: "max_rows ?key r (revision_value r) rest0 = Inr (best, ?rest)"
      and best_in: "best \<in> set ?group"
      and best_ge: "\<forall>other \<in> set ?group. revision_value other \<le> revision_value best"
      by auto
    have keys: "remdups_adj (map (\<lambda>cols. cols ! 1) data) =
        ?key # remdups_adj (map (\<lambda>cols. cols ! 1) ?rest)"
      by (simp add: Cons remdups_adj_Cons' dropWhile_map comp_def)
    with 1(3) have fresh: "?key \<notin> set (map (\<lambda>cols. cols ! 1) ?rest)"
      and grouped: "key_grouped ?rest"
      by (simp_all add: key_grouped_def)
    have ok: "\<forall>row \<in> set ?rest. row_ok row"
      using ok0 set_dropWhileD by fast
    have len: "length ?rest < length data"
      using length_dropWhile_le [of ?P rest0] Cons by simp
    from 1(1) [rule_format, OF len ok [rule_format] grouped] obtain out where
      out: "process ?rest = (out, None)"
      and out_keys: "map (\<lambda>cols. cols ! 1) out = remdups_adj (map (\<lambda>cols. cols ! 1) ?rest)"
      and out_max: "\<forall>row \<in> set out. row \<in> set ?rest \<and>
        (\<forall>other \<in> set ?rest. other ! 1 = row ! 1 \<longrightarrow>
           revision_value other \<le> revision_value row)"
      by blast
    have "set rest0 = set (takeWhile ?P rest0) \<union> set ?rest"
      using set_append [of "takeWhile ?P rest0" ?rest]
      by (simp only: takeWhile_dropWhile_id)
    then have data: "set data = set ?group \<union> set ?rest"
      by (simp add: Cons)
    have group_key: "row ! 1 = ?key" if "row \<in> set ?group" for row
      using that set_takeWhileD [of row ?P rest0] by auto
    have rest_key: "row ! 1 \<noteq> ?key" if "row \<in> set ?rest" for row
    proof
      assume "row ! 1 = ?key"
      moreover from that have "row ! 1 \<in> set (map (\<lambda>cols. cols ! 1) ?rest)"
        by (simp only: set_map) (rule imageI)
      ultimately show False using fresh by (simp only:)
    qed
    from best out row_ok_key_of [OF r] row_ok_revision [OF r]
    have "process (r # rest0) = (best # out, None)"
      by simp
    with Cons have result: "process data = (best # out, None)"
      by simp
    have keys_out: "map (\<lambda>cols. cols ! 1) (best # out) =
        remdups_adj (map (\<lambda>cols. cols ! 1) data)"
      using keys out_keys group_key [OF best_in] by simp
    have max: "row \<in> set data \<and>
        (\<forall>other \<in> set data. other ! 1 = row ! 1 \<longrightarrow>
           revision_value other \<le> revision_value row)"
      if row: "row \<in> set (best # out)" for row
    proof (cases "row = best")
      case True
      have "revision_value other \<le> revision_value best"
        if "other \<in> set data" and "other ! 1 = best ! 1" for other
      proof -
        from that(2) group_key [OF best_in] have "other ! 1 = ?key" by simp
        with rest_key [of other] have "other \<notin> set ?rest" by blast
        with that(1) data have "other \<in> set ?group" by blast
        with best_ge show ?thesis by blast
      qed
      with True best_in data show ?thesis by blast
    next
      case False
      with row have "row \<in> set out" by simp
      with out_max have in_rest: "row \<in> set ?rest"
        and ge: "\<forall>other \<in> set ?rest. other ! 1 = row ! 1 \<longrightarrow>
           revision_value other \<le> revision_value row"
        by blast+
      have "revision_value other \<le> revision_value row"
        if "other \<in> set data" and "other ! 1 = row ! 1" for other
      proof -
        from that(2) rest_key [OF in_rest] have "other ! 1 \<noteq> ?key" by simp
        with group_key [of other] have "other \<notin> set ?group" by blast
        with that(1) data have "other \<in> set ?rest" by blast
        with ge that(2) show ?thesis by blast
      qed
      with in_rest data show ?thesis by blast
    qed
    show ?thesis
      unfolding result using keys_out max by blast
  qed
qed

text \<open>
  A revision that \<open>int\<close> does not read ends the run before the line of its group is
  written.
\<close>

lemma generate_dump_bad_revision:
  "generate_dump
     [example_line ''/works/OL1W'' ''7'' ''{}'',
      example_line ''/works/OL1W'' [CHR 0x1C, CHR ''8'', CHR 0x1F] ''{}''] =
     ([], Some ValueError)"
proof -
  have cols: "split_tab (example_line ''/works/OL1W'' ''7'' ''{}'') =
      [''/type/work'', ''/works/OL1W'', ''7'', ''2020-01-01T00:00:00'', ''{}'' @ [NL]]"
    "split_tab (example_line ''/works/OL1W'' [CHR 0x1C, CHR ''8'', CHR 0x1F] ''{}'') =
      [''/type/work'', ''/works/OL1W'', [CHR 0x1C, CHR ''8'', CHR 0x1F],
       ''2020-01-01T00:00:00'', ''{}'' @ [NL]]"
    by (simp_all add: split_tab_example_line TAB_def)
  have ints: "py_int ''7'' = Inr 7"
    "py_int [CHR 0x1C, CHR ''8'', CHR 0x1F] = Inl ValueError"
    by (simp_all add: py_int_def strip_def is_space_def TAB_def NL_def CR_def
        parse_decimal_def int_max_str_digits_def is_digit_def digit_value_def)
  show ?thesis
    by (simp add: generate_dump_def cols key_of_def revision_def ints)
qed

text \<open>
  C4.  On a key-grouped stream of lines whose third field is an integer that \<open>int\<close> reads,
  \<open>generate_dump\<close> ends without an exception and writes one line for each distinct key, in
  the order in which the groups are met; every written line is a line of the input,
  and no line of the input with the same key has a greater revision, so that of the
  lines that tie on the maximum just one is written.
\<close>

theorem generate_dump_collapse:
  "\<forall>line \<in> set lines. row_ok (split_tab line) \<Longrightarrow> key_grouped (map split_tab lines) \<Longrightarrow>
   \<exists>out. generate_dump lines = (out, None) \<and>
     map (\<lambda>line. split_tab line ! 1) out =
       remdups_adj (map (\<lambda>line. split_tab line ! 1) lines) \<and>
     distinct (map (\<lambda>line. split_tab line ! 1) out) \<and>
     set (map (\<lambda>line. split_tab line ! 1) out) = set (map (\<lambda>line. split_tab line ! 1) lines) \<and>
     (\<forall>line \<in> set out. line \<in> set lines \<and>
        (\<forall>other \<in> set lines. split_tab other ! 1 = split_tab line ! 1 \<longrightarrow>
           revision_value (split_tab other) \<le> revision_value (split_tab line)))"
proof -
  assume ok: "\<forall>line \<in> set lines. row_ok (split_tab line)"
    and grouped: "key_grouped (map split_tab lines)"
  from ok have "\<forall>row \<in> set (map split_tab lines). row_ok row" by simp
  from process_collapse [OF this grouped] obtain rows where
    rows: "process (map split_tab lines) = (rows, None)"
    and keys: "map (\<lambda>cols. cols ! 1) rows =
        remdups_adj (map (\<lambda>cols. cols ! 1) (map split_tab lines))"
    and max: "\<forall>row \<in> set rows. row \<in> set (map split_tab lines) \<and>
        (\<forall>other \<in> set (map split_tab lines). other ! 1 = row ! 1 \<longrightarrow>
           revision_value other \<le> revision_value row)"
    by blast
  let ?out = "map tjoin rows"
  have origin: "split_tab (tjoin row) = row \<and> tjoin row \<in> set lines" if "row \<in> set rows" for row
  proof -
    from that max have "row \<in> set (map split_tab lines)" by blast
    then obtain line where "line \<in> set lines" and "row = split_tab line" by auto
    then show ?thesis by (simp add: tjoin_split_tab)
  qed
  then have rows_out: "map split_tab ?out = rows"
    by (simp add: map_idI)
  have out: "generate_dump lines = (?out, None)"
    by (simp add: generate_dump_def rows)
  have out_keys: "map (\<lambda>line. split_tab line ! 1) ?out =
      remdups_adj (map (\<lambda>line. split_tab line ! 1) lines)"
  proof -
    have "map (\<lambda>line. split_tab line ! 1) ?out = map (\<lambda>cols. cols ! 1) (map split_tab ?out)"
      by (simp add: comp_def)
    also have "\<dots> = remdups_adj (map (\<lambda>cols. cols ! 1) (map split_tab lines))"
      by (simp only: rows_out keys)
    also have "\<dots> = remdups_adj (map (\<lambda>line. split_tab line ! 1) lines)"
      by (simp add: comp_def)
    finally show ?thesis .
  qed
  have out_distinct: "distinct (map (\<lambda>line. split_tab line ! 1) ?out)"
    using grouped unfolding out_keys key_grouped_def by (simp add: comp_def)
  have out_set: "set (map (\<lambda>line. split_tab line ! 1) ?out) =
      set (map (\<lambda>line. split_tab line ! 1) lines)"
    unfolding out_keys by (rule remdups_adj_set)
  have out_max: "line \<in> set lines \<and>
        (\<forall>other \<in> set lines. split_tab other ! 1 = split_tab line ! 1 \<longrightarrow>
           revision_value (split_tab other) \<le> revision_value (split_tab line))"
    if "line \<in> set ?out" for line
  proof -
    from that obtain row where row: "row \<in> set rows" and line: "line = tjoin row" by auto
    from origin [OF row] line have cols: "split_tab line = row" and mem: "line \<in> set lines"
      by simp_all
    from row max have "\<forall>other \<in> set (map split_tab lines). other ! 1 = row ! 1 \<longrightarrow>
           revision_value other \<le> revision_value row" by blast
    with cols mem show ?thesis by simp
  qed
  from out out_keys out_distinct out_set out_max show ?thesis by blast
qed

theorem generate_dump_collapse_witness:
  "generate_dump
     [example_line ''/works/OL1W'' ''1'' ''{}'', example_line ''/works/OL1W'' ''3'' ''{1}'',
      example_line ''/works/OL1W'' ''3'' ''{2}'', example_line ''/works/OL2W'' ''2'' ''{}''] =
     ([example_line ''/works/OL1W'' ''3'' ''{1}'', example_line ''/works/OL2W'' ''2'' ''{}''],
      None) \<and>
   (\<exists>out. generate_dump
     [example_line ''/works/OL1W'' ''1'' ''{}'', example_line ''/works/OL1W'' ''3'' ''{1}'',
      example_line ''/works/OL1W'' ''3'' ''{2}'', example_line ''/works/OL2W'' ''2'' ''{}''] =
     (out, None) \<and>
     map (\<lambda>line. split_tab line ! 1) out = [''/works/OL1W'', ''/works/OL2W''])"
proof -
  let ?lines = "[example_line ''/works/OL1W'' ''1'' ''{}'',
      example_line ''/works/OL1W'' ''3'' ''{1}'',
      example_line ''/works/OL1W'' ''3'' ''{2}'', example_line ''/works/OL2W'' ''2'' ''{}'']"
  have cols: "split_tab (example_line ''/works/OL1W'' ''1'' ''{}'') =
      [''/type/work'', ''/works/OL1W'', ''1'', ''2020-01-01T00:00:00'', ''{}'' @ [NL]]"
    "split_tab (example_line ''/works/OL1W'' ''3'' ''{1}'') =
      [''/type/work'', ''/works/OL1W'', ''3'', ''2020-01-01T00:00:00'', ''{1}'' @ [NL]]"
    "split_tab (example_line ''/works/OL1W'' ''3'' ''{2}'') =
      [''/type/work'', ''/works/OL1W'', ''3'', ''2020-01-01T00:00:00'', ''{2}'' @ [NL]]"
    "split_tab (example_line ''/works/OL2W'' ''2'' ''{}'') =
      [''/type/work'', ''/works/OL2W'', ''2'', ''2020-01-01T00:00:00'', ''{}'' @ [NL]]"
    by (simp_all add: split_tab_example_line TAB_def)
  have ints: "py_int ''1'' = Inr 1" "py_int ''2'' = Inr 2" "py_int ''3'' = Inr 3"
    by (simp_all add: py_int_def strip_def is_space_def TAB_def NL_def CR_def
        parse_decimal_def int_max_str_digits_def is_digit_def digit_value_def)
  have ok: "\<forall>line \<in> set ?lines. row_ok (split_tab line)"
    by (simp add: cols row_ok_def revision_def ints)
  have grouped: "key_grouped (map split_tab ?lines)"
    by (simp add: cols key_grouped_def)
  have "process (map split_tab ?lines) =
     ([split_tab (example_line ''/works/OL1W'' ''3'' ''{1}''),
       split_tab (example_line ''/works/OL2W'' ''2'' ''{}'')], None)"
    by (simp add: cols key_of_def revision_def ints)
  then have run: "generate_dump ?lines =
     ([example_line ''/works/OL1W'' ''3'' ''{1}'', example_line ''/works/OL2W'' ''2'' ''{}''],
      None)"
    by (simp add: generate_dump_def tjoin_split_tab del: tjoin.simps)
  from generate_dump_collapse [OF ok grouped] obtain out where
    out: "generate_dump ?lines = (out, None)"
    and keys: "map (\<lambda>line. split_tab line ! 1) out =
       remdups_adj (map (\<lambda>line. split_tab line ! 1) ?lines)"
    by blast
  from keys have "map (\<lambda>line. split_tab line ! 1) out = [''/works/OL1W'', ''/works/OL2W'']"
    by (simp add: cols)
  with out have "\<exists>out. generate_dump ?lines = (out, None) \<and>
     map (\<lambda>line. split_tab line ! 1) out = [''/works/OL1W'', ''/works/OL2W'']"
    by (intro exI [where x = out] conjI)
  with run show ?thesis by (rule conjI)
qed

end
